theory Spec2Isabelle
  imports Complex_Main
begin

section \<open>JavaScript numbers\<close>

text \<open>
  A TypeScript \<^verbatim>\<open>number\<close> is a finite double, one of the two infinities or NaN. A
  finite double is modelled by the real number it denotes. Comparisons,
  \<^verbatim>\<open>Math.min\<close>, \<^verbatim>\<open>Math.max\<close> and \<^verbatim>\<open>Math.abs\<close> are exact on doubles. The
  arithmetic of the drift correction is rounded as the doubles' arithmetic is (\<open>fl\<close>,
  below); the two other subtractions of the component, in the end-of-stream test and in
  the debounce of the restart, are kept exact.
\<close>

datatype jsnum = NaN | NInf | Fin real | PInf

definition isFinite :: "jsnum \<Rightarrow> bool" where
  "isFinite x = (case x of Fin _ \<Rightarrow> True | _ \<Rightarrow> False)"

text \<open>\<^verbatim>\<open>Math.max(a, b)\<close> and \<^verbatim>\<open>Math.min(a, b)\<close>: NaN when an argument is NaN.\<close>

definition js_max :: "jsnum \<Rightarrow> jsnum \<Rightarrow> jsnum" where
  "js_max a b =
     (case a of
        NaN \<Rightarrow> NaN
      | PInf \<Rightarrow> (case b of NaN \<Rightarrow> NaN | _ \<Rightarrow> PInf)
      | NInf \<Rightarrow> b
      | Fin x \<Rightarrow> (case b of NaN \<Rightarrow> NaN | PInf \<Rightarrow> PInf | NInf \<Rightarrow> Fin x
                            | Fin y \<Rightarrow> Fin (max x y)))"

definition js_min :: "jsnum \<Rightarrow> jsnum \<Rightarrow> jsnum" where
  "js_min a b =
     (case a of
        NaN \<Rightarrow> NaN
      | NInf \<Rightarrow> (case b of NaN \<Rightarrow> NaN | _ \<Rightarrow> NInf)
      | PInf \<Rightarrow> b
      | Fin x \<Rightarrow> (case b of NaN \<Rightarrow> NaN | NInf \<Rightarrow> NInf | PInf \<Rightarrow> Fin x
                            | Fin y \<Rightarrow> Fin (min x y)))"

text \<open>\<^verbatim>\<open>a <= b\<close> on numbers: false as soon as one side is NaN.\<close>

definition js_le :: "jsnum \<Rightarrow> jsnum \<Rightarrow> bool" where
  "js_le a b =
     (case a of
        NaN \<Rightarrow> False
      | NInf \<Rightarrow> (case b of NaN \<Rightarrow> False | _ \<Rightarrow> True)
      | PInf \<Rightarrow> (case b of PInf \<Rightarrow> True | _ \<Rightarrow> False)
      | Fin x \<Rightarrow> (case b of NaN \<Rightarrow> False | NInf \<Rightarrow> False | PInf \<Rightarrow> True
                            | Fin y \<Rightarrow> x \<le> y))"

text \<open>
  \<^verbatim>\<open>xs[a]\<close> on an array: the element when \<open>a\<close> is an integer index in range,
  \<^verbatim>\<open>undefined\<close> (here \<open>None\<close>) for every other number.
\<close>

definition js_index :: "'a list \<Rightarrow> jsnum \<Rightarrow> 'a option" where
  "js_index xs a =
     (case a of
        Fin r \<Rightarrow>
          (if 0 \<le> r \<and> r < real (length xs) \<and> r = real_of_int \<lfloor>r\<rfloor>
           then Some (xs ! nat \<lfloor>r\<rfloor>) else None)
      | _ \<Rightarrow> None)"

text \<open>
  The arithmetic of doubles. A finite double is the real number it denotes; an
  arithmetic operation of JavaScript yields the exact result rounded to the nearest
  double, ties to even, and a decimal literal denotes the double nearest to it.
  \<open>fl x\<close> is that rounding: with \<open>e\<close> the binade of \<open>x\<close> (the exponent of the
  largest power of 2 not above \<open>|x|\<close>, and at least \<open>-1022\<close>, below which the
  doubles are subnormal), the doubles around \<open>x\<close> are the multiples of
  \<open>2 powi (e - 52)\<close>, and \<open>rne\<close> picks the nearest multiple, the even one at a tie.
  A result beyond the largest double, which JavaScript rounds to an infinity, is kept as
  the large finite number it rounds to.
\<close>

definition rne :: "real \<Rightarrow> int" where
  "rne q =
     (let n = \<lfloor>q\<rfloor>; r = q - real_of_int n
      in if r < 1 / 2 then n else if 1 / 2 < r then n + 1 else if even n then n else n + 1)"

definition binade :: "real \<Rightarrow> int" where
  "binade x = max \<lfloor>log 2 \<bar>x\<bar>\<rfloor> (- 1022)"

definition fl :: "real \<Rightarrow> real" where
  "fl x =
     (if x = 0 then 0
      else real_of_int (rne (x / 2 powi (binade x - 52))) * 2 powi (binade x - 52))"

section \<open>VideoComparison.tsx: the initially active index\<close>

text \<open>
  \<^verbatim>\<open>useState(Math.min(Math.max(initialIndex, 0), pairs.length - 1))\<close>, with the
  parameter's default \<^verbatim>\<open>initialIndex = 0\<close> (\<open>None\<close> is the omitted argument), and
  \<^verbatim>\<open>const activePair = pairs[active]\<close>.
\<close>

definition initialActive :: "'p list \<Rightarrow> jsnum option \<Rightarrow> jsnum" where
  "initialActive pairs initialIndex =
     (let i = (case initialIndex of None \<Rightarrow> Fin 0 | Some v \<Rightarrow> v)
      in js_min (js_max i (Fin 0)) (Fin (real (length pairs) - 1)))"

definition activePair :: "'p list \<Rightarrow> jsnum option \<Rightarrow> 'p option" where
  "activePair pairs initialIndex = js_index pairs (initialActive pairs initialIndex)"

section \<open>VideoComparison.tsx: media elements and the component's state\<close>

text \<open>
  An \<^verbatim>\<open>HTMLVideoElement\<close> is an object with identity; the component holds two of
  them through \<^verbatim>\<open>leftRef\<close> and \<^verbatim>\<open>rightRef\<close> and an asynchronous function keeps
  the elements it read from the refs before its first \<^verbatim>\<open>await\<close>. Elements are
  therefore addresses into a store (\<open>media\<close>), and a ref is an optional address
  (\<open>None\<close> is \<^verbatim>\<open>null\<close>). The two flags of an element stand for the tests
  \<^verbatim>\<open>"requestVideoFrameCallback" in L\<close> and \<^verbatim>\<open>"cancelVideoFrameCallback" in L\<close>.
\<close>

type_synonym elem = nat

record video =
  currentTime :: real
  playbackRate :: real
  duration :: jsnum
  paused :: bool
  readyState :: nat
  hasRequestVFC :: bool
  hasCancelVFC :: bool

datatype loopKind = vfc | raf

record handle =
  kind :: loopKind
  ident :: nat

datatype settled = fulfilled | rejected

text \<open>Every call the component makes on an element, on the window or on its own state setter.\<close>

datatype call =
    Pause elem
  | Play elem
  | Load elem
  | SetPlaybackRate elem real
  | SetCurrentTime elem real
  | RequestVideoFrameCallback elem nat
  | RequestAnimationFrame nat
  | CancelVideoFrameCallback elem nat
  | CancelAnimationFrame nat
  | SetIsPlaying bool

text \<open>
  The state: the refs \<open>leftRef\<close>, \<open>rightRef\<close>, \<open>loopHandle\<close>, \<open>justLoopedAt\<close> and the
  React state \<open>isPlaying\<close> of the component; the browser's two lists of pending frame
  callbacks (one per video element and identifier, one for the window), each entry with
  the value of \<open>isPlaying\<close> its \<open>step\<close> closure has captured, and the counters the
  identifiers come from; and the trace of calls made so far.
\<close>

record state =
  media :: "elem \<Rightarrow> video"
  leftRef :: "elem option"
  rightRef :: "elem option"
  loopHandle :: "handle option"
  justLoopedAt :: real
  isPlaying :: bool
  vfcCallbacks :: "((elem \<times> nat) \<times> bool) list"
  rafCallbacks :: "(nat \<times> bool) list"
  vfcCounter :: "elem \<Rightarrow> nat"
  rafCounter :: nat
  calls :: "call list"

subsection \<open>The element and window operations the component calls\<close>

text \<open>
  An assignment to \<^verbatim>\<open>playbackRate\<close> or \<^verbatim>\<open>currentTime\<close> stores the value written
  (clamping of a seek to the media's range is not modelled); \<^verbatim>\<open>pause()\<close> sets
  \<open>paused\<close>; \<^verbatim>\<open>play()\<close> (\<open>requestPlay\<close>) clears it when the returned promise is fulfilled;
  \<^verbatim>\<open>load()\<close> takes the element back to \<^verbatim>\<open>HAVE_NOTHING\<close>.
\<close>

definition setPlaybackRate :: "elem \<Rightarrow> real \<Rightarrow> state \<Rightarrow> state" where
  "setPlaybackRate v r s =
     s\<lparr>media := (media s)(v := (media s v)\<lparr>playbackRate := r\<rparr>),
       calls := calls s @ [SetPlaybackRate v r]\<rparr>"

definition setCurrentTime :: "elem \<Rightarrow> real \<Rightarrow> state \<Rightarrow> state" where
  "setCurrentTime v t s =
     s\<lparr>media := (media s)(v := (media s v)\<lparr>currentTime := t\<rparr>),
       calls := calls s @ [SetCurrentTime v t]\<rparr>"

definition pause :: "elem \<Rightarrow> state \<Rightarrow> state" where
  "pause v s =
     s\<lparr>media := (media s)(v := (media s v)\<lparr>paused := True\<rparr>),
       calls := calls s @ [Pause v]\<rparr>"

definition requestPlay :: "elem \<Rightarrow> settled \<Rightarrow> state \<Rightarrow> state" where
  "requestPlay v outcome s =
     s\<lparr>media := (media s)(v := (media s v)\<lparr>paused :=
                (if outcome = fulfilled then False else paused (media s v))\<rparr>),
       calls := calls s @ [Play v]\<rparr>"

definition load :: "elem \<Rightarrow> state \<Rightarrow> state" where
  "load v s =
     s\<lparr>media := (media s)(v := (media s v)\<lparr>readyState := 0\<rparr>),
       calls := calls s @ [Load v]\<rparr>"

text \<open>
  The two scheduling primitives of the browser. A request registers the callback under a
  fresh identifier and returns the identifier; a cancellation removes the callback with that
  identifier from the list of its own primitive (for a video frame callback: of that
  element) and from no other list.
\<close>

definition requestVideoFrameCallback :: "elem \<Rightarrow> bool \<Rightarrow> state \<Rightarrow> nat \<times> state" where
  "requestVideoFrameCallback L playing s =
     (let i = Suc (vfcCounter s L)
      in (i, s\<lparr>vfcCounter := (vfcCounter s)(L := i),
                vfcCallbacks := vfcCallbacks s @ [((L, i), playing)],
                calls := calls s @ [RequestVideoFrameCallback L i]\<rparr>))"

definition requestAnimationFrame :: "bool \<Rightarrow> state \<Rightarrow> nat \<times> state" where
  "requestAnimationFrame playing s =
     (let i = Suc (rafCounter s)
      in (i, s\<lparr>rafCounter := i,
                rafCallbacks := rafCallbacks s @ [(i, playing)],
                calls := calls s @ [RequestAnimationFrame i]\<rparr>))"

definition cancelVideoFrameCallback :: "elem \<Rightarrow> nat \<Rightarrow> state \<Rightarrow> state" where
  "cancelVideoFrameCallback L i s =
     s\<lparr>vfcCallbacks := filter (\<lambda>c. fst c \<noteq> (L, i)) (vfcCallbacks s),
       calls := calls s @ [CancelVideoFrameCallback L i]\<rparr>"

definition cancelAnimationFrame :: "nat \<Rightarrow> state \<Rightarrow> state" where
  "cancelAnimationFrame i s =
     s\<lparr>rafCallbacks := filter (\<lambda>c. fst c \<noteq> i) (rafCallbacks s),
       calls := calls s @ [CancelAnimationFrame i]\<rparr>"

text \<open>The number of sync-loop iterations that are scheduled and not yet run or cancelled.\<close>

definition scheduled :: "state \<Rightarrow> nat" where
  "scheduled s = length (vfcCallbacks s) + length (rafCallbacks s)"

subsection \<open>cancelSyncLoop and scheduleStep\<close>

definition cancelSyncLoop :: "state \<Rightarrow> state" where
  "cancelSyncLoop s =
     (case loopHandle s of
        None \<Rightarrow> s
      | Some h \<Rightarrow>
          (case leftRef s of
             Some L \<Rightarrow>
               (if kind h = vfc \<and> hasCancelVFC (media s L)
                then (cancelVideoFrameCallback L (ident h) s)\<lparr>loopHandle := None\<rparr>
                else (cancelAnimationFrame (ident h) s)\<lparr>loopHandle := None\<rparr>)
           | None \<Rightarrow> (cancelAnimationFrame (ident h) s)\<lparr>loopHandle := None\<rparr>))"

text \<open>
  \<open>scheduleStep playing\<close> is \<^verbatim>\<open>scheduleStep(step)\<close> for the \<open>step\<close> closure whose
  \<^verbatim>\<open>syncRestart\<close> has captured \<open>isPlaying = playing\<close>.
\<close>

definition scheduleStep :: "bool \<Rightarrow> state \<Rightarrow> state" where
  "scheduleStep playing s =
     (case leftRef s of
        Some L \<Rightarrow>
          (if hasRequestVFC (media s L)
           then (case requestVideoFrameCallback L playing s of
                   (i, s') \<Rightarrow> s'\<lparr>loopHandle := Some \<lparr>kind = vfc, ident = i\<rparr>\<rparr>)
           else (case requestAnimationFrame playing s of
                   (i, s') \<Rightarrow> s'\<lparr>loopHandle := Some \<lparr>kind = raf, ident = i\<rparr>\<rparr>))
      | None \<Rightarrow>
          (case requestAnimationFrame playing s of
             (i, s') \<Rightarrow> s'\<lparr>loopHandle := Some \<lparr>kind = raf, ident = i\<rparr>\<rparr>))"

subsection \<open>waitReady\<close>

text \<open>
  \<^verbatim>\<open>waitReady(v)\<close> returns at once when \<^verbatim>\<open>v.readyState >= 2\<close>; otherwise its
  promise is resolved by the listener \<^verbatim>\<open>on\<close>, which is registered for
  \<^verbatim>\<open>"loadeddata"\<close> only and resolves when the element's \<open>readyState\<close> is at least 2
  at that event. The events the element dispatches afterwards are a list of event names,
  each with the \<open>readyState\<close> at its dispatch; \<open>waitReady\<close> tells whether the promise is
  resolved once they have all been dispatched.
\<close>

datatype mediaEvent = loadstart | loadedmetadata | loadeddata | canplay | error | stalled | abort

fun on_loadeddata :: "(mediaEvent \<times> nat) list \<Rightarrow> bool" where
  "on_loadeddata [] = False"
| "on_loadeddata ((e, rs) # evs) =
     (if e = loadeddata \<and> 2 \<le> rs then True else on_loadeddata evs)"

definition waitReady :: "nat \<Rightarrow> (mediaEvent \<times> nat) list \<Rightarrow> bool" where
  "waitReady rs evs = (if 2 \<le> rs then True else on_loadeddata evs)"

text \<open>
  \<^verbatim>\<open>waitBothReady\<close>: returns at once when a ref is \<^verbatim>\<open>null\<close>, and is otherwise
  \<^verbatim>\<open>Promise.all\<close> of the two waits.
\<close>

definition waitBothReady ::
  "(mediaEvent \<times> nat) list \<Rightarrow> (mediaEvent \<times> nat) list \<Rightarrow> state \<Rightarrow> bool" where
  "waitBothReady evsL evsR s =
     (case leftRef s of
        None \<Rightarrow> True
      | Some L \<Rightarrow>
          (case rightRef s of
             None \<Rightarrow> True
           | Some R \<Rightarrow> waitReady (readyState (media s L)) evsL \<and>
                       waitReady (readyState (media s R)) evsR))"

subsection \<open>seekTo and syncRestart\<close>

text \<open>
  \<^verbatim>\<open>seekTo(v, t)\<close> assigns \<^verbatim>\<open>v.currentTime = t\<close> when it is called; its promise is
  resolved later, by a \<^verbatim>\<open>seeked\<close> or \<^verbatim>\<open>timeupdate\<close> event.
\<close>

definition seekTo :: "elem \<Rightarrow> real \<Rightarrow> state \<Rightarrow> state" where
  "seekTo v t s = setCurrentTime v t s"

text \<open>
  \<open>syncRestart playing now\<close> is the part of \<^verbatim>\<open>syncRestart\<close> that runs when it is
  called, up to its first \<^verbatim>\<open>await\<close>: \<open>playing\<close> is the \<open>isPlaying\<close> its closure
  has captured and \<open>now\<close> is \<^verbatim>\<open>performance.now()\<close>. \<open>syncRestart_resume\<close> is what
  follows the first \<^verbatim>\<open>await\<close>, on the elements read before it.
\<close>

definition syncRestart :: "bool \<Rightarrow> real \<Rightarrow> state \<Rightarrow> state" where
  "syncRestart playing now s =
     (case leftRef s of
        None \<Rightarrow> s
      | Some L \<Rightarrow>
          (case rightRef s of
             None \<Rightarrow> s
           | Some R \<Rightarrow>
               (if \<not> playing then s
                else if now - justLoopedAt s < 200 then s
                else seekTo R 0 (seekTo L 0
                       (setPlaybackRate R 1 (setPlaybackRate L 1
                          (pause R (pause L (s\<lparr>justLoopedAt := now\<rparr>)))))))))"

definition syncRestart_resume :: "elem \<Rightarrow> elem \<Rightarrow> settled \<Rightarrow> settled \<Rightarrow> state \<Rightarrow> state" where
  "syncRestart_resume L R outL outR s = requestPlay R outR (requestPlay L outL s)"

subsection \<open>startSyncLoop and its step\<close>

definition HARD :: real where "HARD = 0.08"

definition SOFT :: real where "SOFT = 0.02"

definition LOOP_GAP :: real where "LOOP_GAP = 0.04"

text \<open>
  The test of part 1 of \<open>step\<close> on the left element:
  \<^verbatim>\<open>d = Number.isFinite(L.duration) ? L.duration : NaN\<close> and
  \<^verbatim>\<open>Number.isFinite(d) && d > 0 && (d - L.currentTime) <= LOOP_GAP\<close>.
\<close>

definition nearEnd :: "video \<Rightarrow> bool" where
  "nearEnd vL =
     (let d = (if isFinite (duration vL) then duration vL else NaN)
      in (case d of Fin x \<Rightarrow> 0 < x \<and> x - currentTime vL \<le> LOOP_GAP | _ \<Rightarrow> False))"

text \<open>
  Part 2 of \<open>step\<close>: the drift correction, with the right element as the follower, in
  the arithmetic of doubles. \<^verbatim>\<open>R.currentTime - L.currentTime\<close>,
  \<^verbatim>\<open>Math.abs(diff) * 0.6\<close> and \<^verbatim>\<open>1 + sign * delta\<close> are rounded (the product by
  the sign, 1 or -1, is exact), and the literals \<^verbatim>\<open>0.08\<close>, \<^verbatim>\<open>0.02\<close>,
  \<^verbatim>\<open>0.05\<close>, \<^verbatim>\<open>0.01\<close> and \<^verbatim>\<open>0.6\<close> are the doubles nearest to them.
  Were the difference of the two current times to overflow, the code would see an
  infinity and the model a large number: both take the first branch.
\<close>

definition correctDrift :: "elem \<Rightarrow> elem \<Rightarrow> state \<Rightarrow> state" where
  "correctDrift L R s =
     (let diff = fl (currentTime (media s R) - currentTime (media s L))
      in if \<bar>diff\<bar> \<ge> fl HARD
         then (let s1 = setPlaybackRate R 1 s
               in setCurrentTime R (currentTime (media s1 L)) s1)
         else if \<bar>diff\<bar> \<ge> fl SOFT
         then (let sign = (if diff < 0 then 1 else - 1);
                   delta = min (fl 0.05) (max (fl 0.01) (fl (\<bar>diff\<bar> * fl 0.6)))
               in setPlaybackRate R (fl (1 + sign * delta)) s)
         else if playbackRate (media s R) \<noteq> 1
         then setPlaybackRate R 1 s
         else s)"

definition step :: "bool \<Rightarrow> real \<Rightarrow> state \<Rightarrow> state" where
  "step playing now s =
     (case leftRef s of
        None \<Rightarrow> s
      | Some L \<Rightarrow>
          (case rightRef s of
             None \<Rightarrow> s
           | Some R \<Rightarrow>
               (if nearEnd (media s L)
                then scheduleStep playing (syncRestart playing now s)
                else scheduleStep playing (correctDrift L R s))))"

definition startSyncLoop :: "bool \<Rightarrow> state \<Rightarrow> state" where
  "startSyncLoop playing s = scheduleStep playing (cancelSyncLoop s)"

text \<open>
  The browser runs a pending callback: the entry leaves its list and \<open>step\<close> runs, with
  the \<open>isPlaying\<close> its closure has captured.
\<close>

definition runVideoFrameCallback :: "elem \<Rightarrow> nat \<Rightarrow> real \<Rightarrow> state \<Rightarrow> state" where
  "runVideoFrameCallback L i now s =
     (case map_of (vfcCallbacks s) (L, i) of
        None \<Rightarrow> s
      | Some playing \<Rightarrow>
          step playing now (s\<lparr>vfcCallbacks := filter (\<lambda>c. fst c \<noteq> (L, i)) (vfcCallbacks s)\<rparr>))"

definition runAnimationFrame :: "nat \<Rightarrow> real \<Rightarrow> state \<Rightarrow> state" where
  "runAnimationFrame i now s =
     (case map_of (rafCallbacks s) i of
        None \<Rightarrow> s
      | Some playing \<Rightarrow>
          step playing now (s\<lparr>rafCallbacks := filter (\<lambda>c. fst c \<noteq> i) (rafCallbacks s)\<rparr>))"

subsection \<open>loadAndStart\<close>

definition setIsPlaying :: "bool \<Rightarrow> state \<Rightarrow> state" where
  "setIsPlaying b s = s\<lparr>isPlaying := b, calls := calls s @ [SetIsPlaying b]\<rparr>"

text \<open>The body of the \<^verbatim>\<open>forEach\<close> of \<open>loadAndStart\<close>.\<close>

definition resetAndLoad :: "elem \<Rightarrow> state \<Rightarrow> state" where
  "resetAndLoad v s = load v (setCurrentTime v 0 (setPlaybackRate v 1 (pause v s)))"

text \<open>
  \<open>loadAndStart_begin\<close> is \<open>loadAndStart\<close> up to \<^verbatim>\<open>await waitBothReady()\<close>;
  \<open>loadAndStart_resume\<close> is what follows once that promise is resolved, on the elements
  \<open>L\<close> and \<open>R\<close> read from the refs at the start, with the outcomes of the two
  \<^verbatim>\<open>play()\<close> promises. Other handlers and effects of the component can run between
  the two. \<open>loadAndStart\<close> is the whole function when nothing runs in between.
\<close>

definition loadAndStart_begin :: "state \<Rightarrow> state" where
  "loadAndStart_begin s =
     (case leftRef s of
        None \<Rightarrow> s
      | Some L \<Rightarrow>
          (case rightRef s of
             None \<Rightarrow> s
           | Some R \<Rightarrow> resetAndLoad R (resetAndLoad L (cancelSyncLoop s))))"

definition loadAndStart_resume ::
  "bool \<Rightarrow> bool \<Rightarrow> elem \<Rightarrow> elem \<Rightarrow> settled \<Rightarrow> settled \<Rightarrow> state \<Rightarrow> state" where
  "loadAndStart_resume play playing L R outL outR s =
     (if \<not> play
      then setCurrentTime R 0.001 (setCurrentTime L 0.001 s)
      else (let s1 = requestPlay R outR (requestPlay L outL s);
                failed = (outL = rejected \<or> outR = rejected)
            in if \<not> failed then startSyncLoop playing s1 else setIsPlaying False s1))"

definition loadAndStart ::
  "bool \<Rightarrow> bool \<Rightarrow> (mediaEvent \<times> nat) list \<Rightarrow> (mediaEvent \<times> nat) list \<Rightarrow>
   settled \<Rightarrow> settled \<Rightarrow> state \<Rightarrow> state" where
  "loadAndStart play playing evsL evsR outL outR s =
     (case leftRef s of
        None \<Rightarrow> s
      | Some L \<Rightarrow>
          (case rightRef s of
             None \<Rightarrow> s
           | Some R \<Rightarrow>
               (let s1 = loadAndStart_begin s
                in if waitBothReady evsL evsR s1
                   then loadAndStart_resume play playing L R outL outR s1
                   else s1)))"

subsection \<open>The effects of the component\<close>

text \<open>
  The effect on \<open>isPlaying\<close> (play/pause toggle), the clean-up of the effect on
  \<open>active\<close>, and what React does to the refs when the video elements are mounted and
  unmounted.
\<close>

definition toggleEffect :: "settled \<Rightarrow> settled \<Rightarrow> state \<Rightarrow> state" where
  "toggleEffect outL outR s =
     (case leftRef s of
        None \<Rightarrow> s
      | Some L \<Rightarrow>
          (case rightRef s of
             None \<Rightarrow> s
           | Some R \<Rightarrow>
               (if isPlaying s
                then (let t = min (currentTime (media s L)) (currentTime (media s R));
                          s1 = setCurrentTime R t (setCurrentTime L t s);
                          s2 = requestPlay R outR (requestPlay L outL s1)
                      in startSyncLoop (isPlaying s) s2)
                else pause R (pause L (cancelSyncLoop s)))))"

definition activeEffectCleanup :: "state \<Rightarrow> state" where
  "activeEffectCleanup s = cancelSyncLoop s"

definition attachRefs :: "elem \<Rightarrow> elem \<Rightarrow> state \<Rightarrow> state" where
  "attachRefs L R s = s\<lparr>leftRef := Some L, rightRef := Some R\<rparr>"

definition detachRefs :: "state \<Rightarrow> state" where
  "detachRefs s = s\<lparr>leftRef := None, rightRef := None\<rparr>"

text \<open>
  A video element that has loaded nothing yet, in a browser with or without
  \<^verbatim>\<open>requestVideoFrameCallback\<close>, and the component before its first effect:
  \<^verbatim>\<open>useState(true)\<close>, \<^verbatim>\<open>useRef(null)\<close> for the loop handle and \<^verbatim>\<open>useRef(-1)\<close> for
  \<open>justLoopedAt\<close>.
\<close>

definition newVideo :: "bool \<Rightarrow> video" where
  "newVideo supportsVFC =
     \<lparr>currentTime = 0, playbackRate = 1, duration = NaN, paused = True, readyState = 0,
      hasRequestVFC = supportsVFC, hasCancelVFC = supportsVFC\<rparr>"

definition initialState :: "bool \<Rightarrow> state" where
  "initialState supportsVFC =
     \<lparr>media = (\<lambda>_. newVideo supportsVFC), leftRef = None, rightRef = None,
      loopHandle = None, justLoopedAt = - 1, isPlaying = True,
      vfcCallbacks = [], rafCallbacks = [], vfcCounter = (\<lambda>_. 0), rafCounter = 0,
      calls = []\<rparr>"

section \<open>VideoComparisonGallery.tsx: the variant that tracks the loading state\<close>

text \<open>
  The second component keeps the selected index, the play intent (\<open>isPlaying\<close> in the
  source, \<open>galleryIsPlaying\<close> here) and one loaded flag per video in React state, and
  reaches its two video elements through \<^verbatim>\<open>videoRef1\<close> and \<^verbatim>\<open>videoRef2\<close>.
\<close>

record loaded =
  v1 :: bool
  v2 :: bool

record gallery =
  selectedIndex :: nat
  galleryIsPlaying :: bool
  videosLoaded :: loaded
  videoRef1 :: "video option"
  videoRef2 :: "video option"

datatype videoNumber = One | Two

definition handleThumbnailClick :: "nat \<Rightarrow> gallery \<Rightarrow> gallery" where
  "handleThumbnailClick index g =
     g\<lparr>selectedIndex := index, galleryIsPlaying := False,
       videosLoaded := \<lparr>v1 = False, v2 = False\<rparr>\<rparr>"

text \<open>
  \<^verbatim>\<open>onLoadedMetadata\<close> and \<^verbatim>\<open>onCanPlay\<close> call \<open>handleVideoLoaded\<close>,
  \<^verbatim>\<open>onError\<close> calls \<open>handleVideoError\<close>: both set the video's loaded flag.
\<close>

definition handleVideoLoaded :: "videoNumber \<Rightarrow> gallery \<Rightarrow> gallery" where
  "handleVideoLoaded videoNumber g =
     g\<lparr>videosLoaded :=
         (case videoNumber of
            One \<Rightarrow> (videosLoaded g)\<lparr>v1 := True\<rparr>
          | Two \<Rightarrow> (videosLoaded g)\<lparr>v2 := True\<rparr>)\<rparr>"

definition handleVideoError :: "videoNumber \<Rightarrow> gallery \<Rightarrow> gallery" where
  "handleVideoError videoNumber g =
     g\<lparr>videosLoaded :=
         (case videoNumber of
            One \<Rightarrow> (videosLoaded g)\<lparr>v1 := True\<rparr>
          | Two \<Rightarrow> (videosLoaded g)\<lparr>v2 := True\<rparr>)\<rparr>"

text \<open>The effect with the dependency list \<^verbatim>\<open>[selectedIndex]\<close>.\<close>

definition selectionEffect :: "gallery \<Rightarrow> gallery" where
  "selectionEffect g =
     (let g1 =
        (case videoRef1 g of
           None \<Rightarrow> g
         | Some a \<Rightarrow>
             (case videoRef2 g of
                None \<Rightarrow> g
              | Some b \<Rightarrow>
                  g\<lparr>videoRef1 := Some (a\<lparr>currentTime := 0, paused := True\<rparr>),
                    videoRef2 := Some (b\<lparr>currentTime := 0, paused := True\<rparr>)\<rparr>))
      in g1\<lparr>galleryIsPlaying := False, videosLoaded := \<lparr>v1 = False, v2 = False\<rparr>\<rparr>)"

text \<open>
  \<open>togglePlayPause\<close>, with the outcomes of the two \<^verbatim>\<open>play()\<close> promises and the
  state update of its \<^verbatim>\<open>then\<close> callback.
\<close>

definition togglePlayPause :: "settled \<Rightarrow> settled \<Rightarrow> gallery \<Rightarrow> gallery" where
  "togglePlayPause out1 out2 g =
     (case videoRef1 g of
        None \<Rightarrow> g
      | Some a \<Rightarrow>
          (case videoRef2 g of
             None \<Rightarrow> g
           | Some b \<Rightarrow>
               (if galleryIsPlaying g
                then g\<lparr>videoRef1 := Some (a\<lparr>paused := True\<rparr>),
                       videoRef2 := Some (b\<lparr>paused := True\<rparr>),
                       galleryIsPlaying := False\<rparr>
                else if v1 (videosLoaded g) \<and> v2 (videosLoaded g)
                then (let hasError = (out1 = rejected \<or> out2 = rejected)
                      in g\<lparr>videoRef1 := Some (a\<lparr>paused :=
                                 (if out1 = fulfilled then False else paused a)\<rparr>),
                            videoRef2 := Some (b\<lparr>paused :=
                                 (if out2 = fulfilled then False else paused b)\<rparr>),
                            galleryIsPlaying := (if hasError then False else True)\<rparr>)
                else g)))"

text \<open>
  A click on a thumbnail, as React processes it: the handler's three state updates, then
  the next render. The slider is keyed by \<^verbatim>\<open>comparison-${selectedIndex}\<close>, so a
  changed index mounts new video elements (\<open>remount\<close>), and the effect on
  \<^verbatim>\<open>[selectedIndex]\<close> runs only when the index has changed.
\<close>

definition remount :: "gallery \<Rightarrow> gallery" where
  "remount g = g\<lparr>videoRef1 := Some (newVideo True), videoRef2 := Some (newVideo True)\<rparr>"

definition thumbnailClick :: "nat \<Rightarrow> gallery \<Rightarrow> gallery" where
  "thumbnailClick index g =
     (let g1 = handleThumbnailClick index g
      in if selectedIndex g1 = selectedIndex g then g1 else selectionEffect (remount g1))"

text \<open>
  The paused state a pair switch is to land in, and the condition under which the
  play button is enabled and the loading overlay is gone.
\<close>

definition pausedAtZero :: "video option \<Rightarrow> bool" where
  "pausedAtZero r = (case r of None \<Rightarrow> False | Some v \<Rightarrow> paused v \<and> currentTime v = 0)"

definition landedPaused :: "gallery \<Rightarrow> bool" where
  "landedPaused g =
     (\<not> galleryIsPlaying g \<and> pausedAtZero (videoRef1 g) \<and> pausedAtZero (videoRef2 g) \<and>
      \<not> v1 (videosLoaded g) \<and> \<not> v2 (videosLoaded g))"

definition playButtonEnabled :: "gallery \<Rightarrow> bool" where
  "playButtonEnabled g = (v1 (videosLoaded g) \<and> v2 (videosLoaded g))"

text \<open>The first pair selected, both videos loaded and playing, 3 s into the clip.\<close>

definition watching :: gallery where
  "watching =
     \<lparr>selectedIndex = 0, galleryIsPlaying = True, videosLoaded = \<lparr>v1 = True, v2 = True\<rparr>,
      videoRef1 = Some ((newVideo True)\<lparr>currentTime := 3, paused := False, readyState := 4\<rparr>),
      videoRef2 = Some ((newVideo True)\<lparr>currentTime := 3, paused := False, readyState := 4\<rparr>)\<rparr>"

section \<open>Observations and example states\<close>

text \<open>The calls that schedule a sync-loop iteration.\<close>

definition schedulingCall :: "call \<Rightarrow> bool" where
  "schedulingCall c =
     (case c of
        RequestVideoFrameCallback _ _ \<Rightarrow> True
      | RequestAnimationFrame _ \<Rightarrow> True
      | _ \<Rightarrow> False)"

text \<open>
  The component in a browser with \<^verbatim>\<open>requestVideoFrameCallback\<close>, its two elements
  (0 on the left, 1 on the right) mounted and playing at the positions \<open>tL\<close> and \<open>tR\<close>
  of media of duration \<open>d\<close>, and no call made so far.
\<close>

definition playingAt :: "real \<Rightarrow> real \<Rightarrow> jsnum \<Rightarrow> state" where
  "playingAt tL tR d =
     (attachRefs 0 1 (initialState True))
       \<lparr>media := (\<lambda>v. (newVideo True)\<lparr>currentTime := (if v = 0 then tL else tR),
                                        duration := d, paused := False, readyState := 4\<rparr>)\<rparr>"

text \<open>
  A run of invocations of \<^verbatim>\<open>syncRestart\<close> (from the sync loop's \<open>step\<close> or from an
  \<^verbatim>\<open>ended\<close> event), one after the other: each invocation comes with what the
  component and the browser did to the state since the previous one (\<open>inv_before\<close>),
  the \<open>isPlaying\<close> its closure has captured and the value of
  \<^verbatim>\<open>performance.now()\<close>. \<open>restarts\<close> tells of each invocation whether it performed
  the restart sequence, that is, whether it made any call.
\<close>

record invocation =
  inv_before :: "state \<Rightarrow> state"
  inv_playing :: bool
  inv_now :: real

definition performed :: "state \<Rightarrow> state \<Rightarrow> bool" where
  "performed s s' = (length (calls s) < length (calls s'))"

fun restarts :: "invocation list \<Rightarrow> state \<Rightarrow> bool list" where
  "restarts [] s = []"
| "restarts (v # vs) s =
     (let s0 = inv_before v s;
          s1 = syncRestart (inv_playing v) (inv_now v) s0
      in performed s0 s1 # restarts vs s1)"

text \<open>Only \<^verbatim>\<open>syncRestart\<close> assigns \<open>justLoopedAt\<close>; whatever runs between two invocations keeps it.\<close>

definition keepsJustLoopedAt :: "(state \<Rightarrow> state) \<Rightarrow> bool" where
  "keepsJustLoopedAt f = (\<forall>s. justLoopedAt (f s) = justLoopedAt s)"

text \<open>Three invocations, at 1000 ms, 1150 ms and 1300 ms.\<close>

definition threeRestarts :: "invocation list" where
  "threeRestarts =
     [\<lparr>inv_before = pause 0, inv_playing = True, inv_now = 1000\<rparr>,
      \<lparr>inv_before = correctDrift 0 1, inv_playing = True, inv_now = 1150\<rparr>,
      \<lparr>inv_before = (\<lambda>s. s), inv_playing = True, inv_now = 1300\<rparr>]"

text \<open>
  A life of the component in a browser with \<^verbatim>\<open>requestVideoFrameCallback\<close>.
  \<open>mounted\<close>: the elements 0 and 1 are mounted. \<open>mountedLooping\<close>: the two effects of
  the first render have run, the effect on \<open>active\<close> up to the first \<^verbatim>\<open>await\<close> of
  \<open>loadAndStart\<close>, then the effect on \<open>isPlaying\<close>, which starts the sync loop.
  \<open>unmounting\<close>: the component is unmounted before the media are ready; React has set
  the refs to \<^verbatim>\<open>null\<close> and is about to run the effects' clean-ups.
  \<open>afterUnmount\<close>: the clean-up has run and the pending \<open>loadAndStart\<close> has resumed,
  with both \<^verbatim>\<open>play()\<close> promises fulfilled.
  \<open>afterPairSwitch\<close>: instead of the unmount, another pair is selected: the slider is
  keyed by \<open>active\<close>, so React mounts new elements (2 and 3), then runs the clean-up
  and the effect on \<open>active\<close>, here to its end.
\<close>

definition mounted :: state where
  "mounted = attachRefs 0 1 (initialState True)"

definition mountedLooping :: state where
  "mountedLooping =
     toggleEffect fulfilled fulfilled (loadAndStart_begin mounted)"

definition unmounting :: state where
  "unmounting = detachRefs mountedLooping"

definition afterUnmount :: state where
  "afterUnmount =
     loadAndStart_resume True True 0 1 fulfilled fulfilled (activeEffectCleanup unmounting)"

definition afterPairSwitch :: state where
  "afterPairSwitch =
     loadAndStart True True [(loadeddata, 4)] [(loadeddata, 4)] fulfilled fulfilled
       (activeEffectCleanup (attachRefs 2 3 mountedLooping))"

text \<open>
  \<open>tracked s\<close>: every pending iteration is the one \<open>loopHandle\<close> names, and
  \<open>cancelSyncLoop\<close> can reach it: it is an animation frame callback, or a video frame
  callback of the element the left ref holds now.
\<close>

definition tracked :: "state \<Rightarrow> bool" where
  "tracked s =
     (case loopHandle s of
        None \<Rightarrow> vfcCallbacks s = [] \<and> rafCallbacks s = []
      | Some h \<Rightarrow>
          (case kind h of
             raf \<Rightarrow> vfcCallbacks s = [] \<and> list_all (\<lambda>c. fst c = ident h) (rafCallbacks s)
           | vfc \<Rightarrow>
               rafCallbacks s = [] \<and>
               (case leftRef s of
                  None \<Rightarrow> False
                | Some L \<Rightarrow> hasCancelVFC (media s L) \<and>
                     list_all (\<lambda>c. fst c = (L, ident h)) (vfcCallbacks s))))"

section \<open>Properties\<close>

subsection \<open>The initially active index\<close>

lemma clamp_of_int:
  "min (max (real_of_int k) 0) (real n - 1) = real_of_int (min (max k 0) (int n - 1))"
  by (simp add: min_def max_def)

lemma initialActive_empty: "initialActive [] None = Fin (- 1)"
  by (simp add: initialActive_def js_min_def js_max_def)

text \<open>
  C9, as stated, fails: for the empty sequence and the default index the initially
  active index is \<open>-1\<close>, which is below 0, and no pair is selected; for a NaN index
  the active index is NaN, which is not at least 0; and for the index \<open>1/2\<close> and two
  pairs the active index is \<open>1/2\<close>, which selects no pair.
\<close>

theorem C9_counterexample:
  "\<not> js_le (Fin 0) (initialActive ([] :: nat list) None) \<and>
   activePair ([] :: nat list) None = None \<and>
   \<not> js_le (Fin 0) (initialActive [10, 20 :: nat] (Some NaN)) \<and>
   activePair [10, 20 :: nat] (Some (Fin (1 / 2))) = None"
  by (simp add: activePair_def initialActive_def js_min_def js_max_def js_le_def js_index_def)

text \<open>
  C9 (amended): for every non-empty sequence and every index that is not NaN the initially
  active index lies between 0 and \<open>length pairs - 1\<close>; when the index is moreover an
  integer (or omitted, or infinite) the initially active pair is an element of the
  sequence.
\<close>

theorem C9_initialActive_in_range:
  assumes "pairs \<noteq> []" and "initialIndex \<noteq> Some NaN"
  shows "js_le (Fin 0) (initialActive pairs initialIndex) \<and>
         js_le (initialActive pairs initialIndex) (Fin (real (length pairs) - 1)) \<and>
         ((case initialIndex of Some (Fin r) \<Rightarrow> r = real_of_int \<lfloor>r\<rfloor> | _ \<Rightarrow> True)
            \<longrightarrow> (\<exists>p. activePair pairs initialIndex = Some p \<and> p \<in> set pairs))"
proof -
  from assms(1) have nlen: "Suc 0 \<le> length pairs"
    by (cases pairs) simp_all
  then have len: "1 \<le> real (length pairs)"
    by simp
  show ?thesis
  proof (cases initialIndex)
    case None
    with len show ?thesis
      by (simp add: activePair_def initialActive_def js_min_def js_max_def js_le_def js_index_def
          assms(1))
  next
    case (Some v)
    show ?thesis
    proof (cases v)
      case NaN
      with Some assms(2) show ?thesis by simp
    next
      case NInf
      with Some len show ?thesis
        by (simp add: activePair_def initialActive_def js_min_def js_max_def js_le_def
            js_index_def assms(1))
    next
      case PInf
      with Some len assms(1) show ?thesis
        by (simp add: activePair_def initialActive_def js_min_def js_max_def js_le_def
            js_index_def)
    next
      case (Fin r)
      define a where "a = min (max r 0) (real (length pairs) - 1)"
      have act: "initialActive pairs initialIndex = Fin a"
        using Some Fin by (simp add: initialActive_def js_min_def js_max_def a_def)
      have range: "0 \<le> a" "a \<le> real (length pairs) - 1"
        using len by (simp_all add: a_def)
      have elem: "\<exists>p. activePair pairs initialIndex = Some p \<and> p \<in> set pairs"
        if int: "r = real_of_int \<lfloor>r\<rfloor>"
      proof -
        obtain k where k: "r = real_of_int k" using int ..
        have "a = real_of_int (min (max k 0) (int (length pairs) - 1))"
          unfolding a_def k by (rule clamp_of_int)
        then have aint: "a = real_of_int \<lfloor>a\<rfloor>" by simp
        have bound: "nat \<lfloor>a\<rfloor> < length pairs"
          using range aint by linarith
        have "activePair pairs initialIndex = Some (pairs ! nat \<lfloor>a\<rfloor>)"
          using range aint by (simp add: activePair_def act js_index_def)
        with bound show ?thesis by simp
      qed
      show ?thesis
        unfolding act using range elem Some Fin by (simp add: js_le_def)
    qed
  qed
qed

theorem C9_initialActive_in_range_witness:
  "[10, 20, 30 :: nat] \<noteq> [] \<and> Some (Fin 7) \<noteq> Some NaN \<and>
   initialActive [10, 20, 30 :: nat] (Some (Fin 7)) = Fin 2 \<and>
   activePair [10, 20, 30 :: nat] (Some (Fin 7)) = Some 30"
proof -
  have ne: "[10, 20, 30 :: nat] \<noteq> []" by simp
  have nn: "Some (Fin 7) \<noteq> Some NaN" by simp
  note r = C9_initialActive_in_range [OF ne nn]
  have "initialActive [10, 20, 30 :: nat] (Some (Fin 7)) = Fin 2"
    by (simp add: initialActive_def js_min_def js_max_def)
  moreover have "activePair [10, 20, 30 :: nat] (Some (Fin 7)) = Some 30"
    by (simp add: activePair_def initialActive_def js_min_def js_max_def js_index_def)
  ultimately show ?thesis using r by simp
qed

subsection \<open>Rounding to the nearest double\<close>

lemma rne_of_int: "rne (real_of_int k) = k"
  by (simp add: rne_def)

lemma rne_bounds: "\<lfloor>q\<rfloor> \<le> rne q \<and> rne q \<le> \<lfloor>q\<rfloor> + 1"
  by (simp add: rne_def Let_def)

lemma rne_mono: "q \<le> q' \<Longrightarrow> rne q \<le> rne q'"
proof -
  assume le: "q \<le> q'"
  then have floors: "\<lfloor>q\<rfloor> \<le> \<lfloor>q'\<rfloor>" by (rule floor_mono)
  show ?thesis
  proof (cases "\<lfloor>q\<rfloor> = \<lfloor>q'\<rfloor>")
    case True
    with le show ?thesis by (auto simp add: rne_def Let_def)
  next
    case False
    with floors have "\<lfloor>q\<rfloor> + 1 \<le> \<lfloor>q'\<rfloor>" by simp
    with rne_bounds [of q] rne_bounds [of q'] show ?thesis by linarith
  qed
qed

lemma rne_minus: "rne (- q) = - rne q"
proof (cases "q = real_of_int \<lfloor>q\<rfloor>")
  case True
  then obtain k where k: "q = real_of_int k" ..
  then have "- q = real_of_int (- k)" by simp
  then show ?thesis
    using k by (simp only: rne_of_int)
next
  case False
  then have nf: "\<lfloor>- q\<rfloor> = - \<lfloor>q\<rfloor> - 1"
    by (simp add: floor_minus ceiling_altdef)
  show ?thesis
    using False by (auto simp add: rne_def Let_def nf)
qed

lemma two_powr_int: "(2::real) powr real_of_int k = 2 powi k"
  by (simp add: powr_real_of_int')

lemma two_powi_53: "(2::real) powi (b + 1) = real_of_int (2 ^ 53) * 2 powi (b - 52)"
  using power_int_add [of "2::real" 53 "b - 52"] by (simp add: add.commute)

lemma two_powi_52: "(2::real) powi b = real_of_int (2 ^ 52) * 2 powi (b - 52)"
  using power_int_add [of "2::real" 52 "b - 52"] by simp

lemma rne_scaled_upper:
  assumes "x \<le> 2 powi (b + 1)"
  shows "real_of_int (rne (x / 2 powi (b - 52))) * 2 powi (b - 52) \<le> 2 powi (b + 1)"
proof -
  let ?u = "(2::real) powi (b - 52)"
  have u: "0 < ?u" by simp
  have "x / ?u \<le> real_of_int (2 ^ 53) * ?u / ?u"
    using assms u unfolding two_powi_53 by (simp only: divide_right_mono less_imp_le)
  then have "x / ?u \<le> real_of_int (2 ^ 53)" using u by simp
  then have "rne (x / ?u) \<le> rne (real_of_int (2 ^ 53))" by (rule rne_mono)
  then have "rne (x / ?u) \<le> 2 ^ 53" by (simp only: rne_of_int)
  then have "real_of_int (rne (x / ?u)) \<le> real_of_int (2 ^ 53)" by (simp only: of_int_le_iff)
  then have "real_of_int (rne (x / ?u)) * ?u \<le> real_of_int (2 ^ 53) * ?u"
    using u by (simp only: mult_right_mono less_imp_le)
  then show ?thesis unfolding two_powi_53 .
qed

lemma rne_scaled_lower:
  assumes "2 powi b \<le> y"
  shows "2 powi b \<le> real_of_int (rne (y / 2 powi (b - 52))) * 2 powi (b - 52)"
proof -
  let ?u = "(2::real) powi (b - 52)"
  have u: "0 < ?u" by simp
  have "real_of_int (2 ^ 52) * ?u / ?u \<le> y / ?u"
    using assms u unfolding two_powi_52 [of b] by (simp only: divide_right_mono less_imp_le)
  then have "real_of_int (2 ^ 52) \<le> y / ?u" using u by simp
  then have "rne (real_of_int (2 ^ 52)) \<le> rne (y / ?u)" by (rule rne_mono)
  then have "2 ^ 52 \<le> rne (y / ?u)" by (simp only: rne_of_int)
  then have "real_of_int (2 ^ 52) \<le> real_of_int (rne (y / ?u))" by (simp only: of_int_le_iff)
  then have "real_of_int (2 ^ 52) * ?u \<le> real_of_int (rne (y / ?u)) * ?u"
    using u by (simp only: mult_right_mono less_imp_le)
  then show ?thesis unfolding two_powi_52 [of b] .
qed

lemma floor_log2_bounds:
  assumes "x \<noteq> 0"
  shows "2 powi \<lfloor>log 2 \<bar>x\<bar>\<rfloor> \<le> \<bar>x\<bar> \<and> \<bar>x\<bar> < 2 powi (\<lfloor>log 2 \<bar>x\<bar>\<rfloor> + 1)"
proof -
  have pos: "0 < \<bar>x\<bar>" using assms by simp
  have "(2::real) powr real_of_int \<lfloor>log 2 \<bar>x\<bar>\<rfloor> \<le> \<bar>x\<bar> \<and>
        \<bar>x\<bar> < 2 powr real_of_int (\<lfloor>log 2 \<bar>x\<bar>\<rfloor> + 1)"
    using floor_log_eq_powr_iff [OF pos, of 2 "\<lfloor>log 2 \<bar>x\<bar>\<rfloor>"] by (simp del: of_int_add)
  then show ?thesis by (simp only: two_powr_int)
qed

lemma binade_upper: "x \<noteq> 0 \<Longrightarrow> \<bar>x\<bar> < 2 powi (binade x + 1)"
proof -
  assume x: "x \<noteq> 0"
  have "\<bar>x\<bar> < 2 powi (\<lfloor>log 2 \<bar>x\<bar>\<rfloor> + 1)"
    using floor_log2_bounds [OF x] by simp
  also have "\<dots> \<le> 2 powi (binade x + 1)"
    by (rule power_int_increasing) (simp_all add: binade_def)
  finally show ?thesis .
qed

lemma binade_lower: "x \<noteq> 0 \<Longrightarrow> - 1022 < binade x \<Longrightarrow> 2 powi binade x \<le> \<bar>x\<bar>"
  using floor_log2_bounds [of x] by (simp add: binade_def max_def split: if_splits)

lemma binade_eq:
  assumes "2 powi e \<le> \<bar>x\<bar>" and "\<bar>x\<bar> < 2 powi (e + 1)" and "- 1022 \<le> e"
  shows "binade x = e"
proof -
  have "(0::real) < 2 powi e" by simp
  with assms(1) have pos: "0 < \<bar>x\<bar>" by linarith
  have "(\<lfloor>log 2 \<bar>x\<bar>\<rfloor> = e) =
        ((2::real) powr real_of_int e \<le> \<bar>x\<bar> \<and> \<bar>x\<bar> < 2 powr real_of_int (e + 1))"
    by (rule floor_log_eq_powr_iff [OF pos]) simp
  then have "\<lfloor>log 2 \<bar>x\<bar>\<rfloor> = e"
    using assms(1,2) by (simp only: two_powr_int)
  with assms(3) show ?thesis by (simp add: binade_def)
qed

lemma binade_minus: "binade (- x) = binade x"
  by (simp add: binade_def)

lemma binade_mono: "0 < x \<Longrightarrow> x \<le> y \<Longrightarrow> binade x \<le> binade y"
proof -
  assume "0 < x" "x \<le> y"
  then have "log 2 \<bar>x\<bar> \<le> log 2 \<bar>y\<bar>" by simp
  then have "\<lfloor>log 2 \<bar>x\<bar>\<rfloor> \<le> \<lfloor>log 2 \<bar>y\<bar>\<rfloor>" by (rule floor_mono)
  then show ?thesis by (simp add: binade_def)
qed

lemma fl_zero: "fl 0 = 0"
  by (simp add: fl_def)

lemma fl_minus: "fl (- x) = - fl x"
  by (simp add: fl_def binade_minus rne_minus)

lemma fl_nonneg: "0 \<le> x \<Longrightarrow> 0 \<le> fl x"
proof -
  assume x: "0 \<le> x"
  have "0 \<le> x / 2 powi (binade x - 52)" using x by simp
  then have "0 \<le> \<lfloor>x / 2 powi (binade x - 52)\<rfloor>" by simp
  with rne_bounds [of "x / 2 powi (binade x - 52)"]
  have "0 \<le> rne (x / 2 powi (binade x - 52))" by linarith
  then show ?thesis by (simp add: fl_def)
qed

text \<open>Rounding is monotone: within a binade by \<open>rne_mono\<close>, across binades through the power of 2 between.\<close>

lemma fl_mono_pos:
  assumes "0 < x" and "x \<le> y"
  shows "fl x \<le> fl y"
proof -
  let ?ux = "(2::real) powi (binade x - 52)" and ?uy = "(2::real) powi (binade y - 52)"
  have y: "0 < y" using assms by simp
  have ux: "0 < ?ux" and uy: "0 < ?uy" by simp_all
  have flx: "fl x = real_of_int (rne (x / ?ux)) * ?ux"
    and fly: "fl y = real_of_int (rne (y / ?uy)) * ?uy"
    using assms y by (simp_all add: fl_def)
  have le: "binade x \<le> binade y" using assms by (rule binade_mono)
  show ?thesis
  proof (cases "binade x = binade y")
    case True
    have "x / ?ux \<le> y / ?ux"
      using assms(2) ux by (simp add: divide_right_mono)
    then have "rne (x / ?ux) \<le> rne (y / ?ux)" by (rule rne_mono)
    then have "real_of_int (rne (x / ?ux)) * ?ux \<le> real_of_int (rne (y / ?ux)) * ?ux"
      using ux by (simp add: mult_right_mono)
    then show ?thesis unfolding flx fly True by simp
  next
    case False
    with le have lt: "binade x + 1 \<le> binade y" by simp
    then have big: "- 1022 < binade y"
      by (simp add: binade_def)
    have "x \<le> 2 powi (binade x + 1)"
      using binade_upper [of x] assms(1) by simp
    then have "fl x \<le> 2 powi (binade x + 1)"
      unfolding flx by (rule rne_scaled_upper)
    also have "\<dots> \<le> 2 powi binade y"
      using lt by (intro power_int_increasing) simp_all
    finally have A: "fl x \<le> 2 powi binade y" .
    have "2 powi binade y \<le> y"
      using binade_lower [OF _ big] y by simp
    then have B: "2 powi binade y \<le> fl y"
      unfolding fly by (rule rne_scaled_lower)
    from A B show ?thesis by simp
  qed
qed

lemma fl_mono: "x \<le> y \<Longrightarrow> fl x \<le> fl y"
proof -
  assume le: "x \<le> y"
  consider "0 < x" | "x \<le> 0" "0 \<le> y" | "y < 0" by linarith
  then show ?thesis
  proof cases
    case 1
    then show ?thesis using le by (rule fl_mono_pos)
  next
    case 2
    have "fl x = - fl (- x)" by (simp add: fl_minus)
    moreover have "0 \<le> fl (- x)" using 2(1) by (intro fl_nonneg) simp
    moreover have "0 \<le> fl y" using 2(2) by (rule fl_nonneg)
    ultimately show ?thesis by simp
  next
    case 3
    then have "fl (- y) \<le> fl (- x)" using le by (intro fl_mono_pos) simp_all
    then show ?thesis by (simp add: fl_minus)
  qed
qed

lemma fl_abs_mono: "a \<le> \<bar>x\<bar> \<Longrightarrow> fl a \<le> \<bar>fl x\<bar>"
proof -
  assume a: "a \<le> \<bar>x\<bar>"
  show ?thesis
  proof (cases "0 \<le> x")
    case True
    then have "fl a \<le> fl x" using a by (intro fl_mono) simp
    then show ?thesis by simp
  next
    case False
    then have "fl a \<le> fl (- x)" using a by (intro fl_mono) simp
    then show ?thesis by (simp add: fl_minus)
  qed
qed

text \<open>The rounding of a number whose binade is known, for evaluation.\<close>

lemma fl_eval:
  assumes "2 powi e \<le> \<bar>x\<bar>" and "\<bar>x\<bar> < 2 powi (e + 1)" and "- 1022 \<le> e"
  shows "fl x = real_of_int (rne (x / 2 powi (e - 52))) * 2 powi (e - 52)"
proof -
  have "(0::real) < 2 powi e" by simp
  with assms(1) have "0 < \<bar>x\<bar>" by linarith
  then have "x \<noteq> 0" by simp
  then show ?thesis
    by (simp add: fl_def binade_eq [OF assms])
qed

text \<open>The doubles that the literals of the drift correction denote, and a few dyadic numbers.\<close>

lemma fl_HARD: "fl HARD = 5764607523034235 / 2 ^ 56"
  unfolding HARD_def using fl_eval [of "- 4" "0.08"] by (simp add: rne_def Let_def)

lemma fl_SOFT: "fl SOFT = 5764607523034235 / 2 ^ 58"
  unfolding SOFT_def using fl_eval [of "- 6" "0.02"] by (simp add: rne_def Let_def)

lemma fl_001: "fl (1 / 100) = 5764607523034235 / 2 ^ 59"
  using fl_eval [of "- 7" "1 / 100"] by (simp add: rne_def Let_def)

lemma fl_005: "fl (1 / 20) = 3602879701896397 / 2 ^ 56"
  using fl_eval [of "- 5" "1 / 20"] by (simp add: rne_def Let_def)

lemma fl_06: "fl (3 / 5) = 5404319552844595 / 2 ^ 53"
  using fl_eval [of "- 1" "3 / 5"] by (simp add: rne_def Let_def)

lemma fl_dyadic:
  "fl (25 / 512) = 25 / 512" "fl (127 / 128) = 127 / 128" "fl (129 / 128) = 129 / 128"
  using fl_eval [of "- 5" "25 / 512"] fl_eval [of "- 1" "127 / 128"] fl_eval [of 0 "129 / 128"]
  by (simp_all add: rne_def Let_def)

subsection \<open>The drift correction of one iteration\<close>

lemma media_scheduleStep: "media (scheduleStep playing s) = media s"
  by (simp add: scheduleStep_def requestVideoFrameCallback_def requestAnimationFrame_def
      Let_def split: option.splits)

lemma calls_scheduleStep:
  "\<exists>c. schedulingCall c \<and> calls (scheduleStep playing s) = calls s @ [c]"
  by (simp add: scheduleStep_def requestVideoFrameCallback_def requestAnimationFrame_def
      Let_def schedulingCall_def split: option.splits)

lemma step_correctDrift:
  "leftRef s = Some L \<Longrightarrow> rightRef s = Some R \<Longrightarrow> \<not> nearEnd (media s L) \<Longrightarrow>
   step playing now s = scheduleStep playing (correctDrift L R s)"
  by (simp add: step_def)

lemma step_syncRestart:
  "leftRef s = Some L \<Longrightarrow> rightRef s = Some R \<Longrightarrow> nearEnd (media s L) \<Longrightarrow>
   step playing now s = scheduleStep playing (syncRestart playing now s)"
  by (simp add: step_def)

lemma playingAt_simps:
  "leftRef (playingAt tL tR d) = Some 0"
  "rightRef (playingAt tL tR d) = Some 1"
  "currentTime (media (playingAt tL tR d) v) = (if v = 0 then tL else tR)"
  "duration (media (playingAt tL tR d) v) = d"
  "playbackRate (media (playingAt tL tR d) v) = 1"
  "calls (playingAt tL tR d) = []"
  "justLoopedAt (playingAt tL tR d) = - 1"
  by (simp_all add: playingAt_def attachRefs_def initialState_def newVideo_def)

lemma nearEnd_Fin:
  "duration v = Fin x \<Longrightarrow> nearEnd v = (0 < x \<and> x - currentTime v \<le> LOOP_GAP)"
  by (simp add: nearEnd_def isFinite_def)

text \<open>
  The three branches of the drift correction, by the difference as the code computes it.
\<close>

lemma correctDrift_hard:
  "fl HARD \<le> \<bar>fl (currentTime (media s R) - currentTime (media s L))\<bar> \<Longrightarrow>
   correctDrift L R s = setCurrentTime R (currentTime (media s L)) (setPlaybackRate R 1 s)"
  by (simp add: correctDrift_def Let_def setPlaybackRate_def)

lemma correctDrift_soft:
  "fl SOFT \<le> \<bar>fl (currentTime (media s R) - currentTime (media s L))\<bar> \<Longrightarrow>
   \<bar>fl (currentTime (media s R) - currentTime (media s L))\<bar> < fl HARD \<Longrightarrow>
   correctDrift L R s =
     setPlaybackRate R
       (fl (if fl (currentTime (media s R) - currentTime (media s L)) < 0
            then 1 + min (fl 0.05) (max (fl 0.01)
                   (fl (\<bar>fl (currentTime (media s R) - currentTime (media s L))\<bar> * fl 0.6)))
            else 1 - min (fl 0.05) (max (fl 0.01)
                   (fl (\<bar>fl (currentTime (media s R) - currentTime (media s L))\<bar> * fl 0.6))))) s"
  by (simp add: correctDrift_def Let_def)

lemma correctDrift_none:
  "\<bar>fl (currentTime (media s R) - currentTime (media s L))\<bar> < fl SOFT \<Longrightarrow>
   playbackRate (media s R) = 1 \<Longrightarrow> correctDrift L R s = s"
proof -
  assume a: "\<bar>fl (currentTime (media s R) - currentTime (media s L))\<bar> < fl SOFT"
    and r: "playbackRate (media s R) = 1"
  have "fl SOFT \<le> fl HARD"
    by (rule fl_mono) (simp add: SOFT_def HARD_def)
  with a r show ?thesis
    by (simp add: correctDrift_def Let_def)
qed

text \<open>
  In the soft band the product \<open>|diff| * 0.6\<close> rounds to at most 25/512, so \<open>delta\<close>
  lies between 0.01 and 0.05, and \<open>1 - delta\<close> and \<open>1 + delta\<close> round to at most
  127/128 and at least 129/128.
\<close>

lemma soft_delta:
  assumes "\<bar>d\<bar> < fl HARD"
  shows "0.01 \<le> min (fl 0.05) (max (fl 0.01) (fl (\<bar>d\<bar> * fl 0.6))) \<and>
         min (fl 0.05) (max (fl 0.01) (fl (\<bar>d\<bar> * fl 0.6))) \<le> 0.05"
proof -
  have "\<bar>d\<bar> * fl 0.6 \<le> fl HARD * fl 0.6"
    using assms by (intro mult_right_mono fl_nonneg) simp_all
  also have "\<dots> \<le> 25 / 512"
    by (simp add: fl_HARD fl_06)
  finally have "fl (\<bar>d\<bar> * fl 0.6) \<le> fl (25 / 512)" by (rule fl_mono)
  then have p: "fl (\<bar>d\<bar> * fl 0.6) \<le> 0.05" by (simp add: fl_dyadic)
  have "(0.01::real) \<le> fl 0.01" "fl 0.01 \<le> (0.05::real)" "(0.01::real) \<le> fl 0.05"
    by (simp_all add: fl_001 fl_005)
  with p show ?thesis by (simp add: min_def max_def)
qed

lemma soft_rate:
  assumes "0.01 \<le> delta"
  shows "fl (1 - delta) < 1 \<and> 1 < fl (1 + delta)"
proof -
  have "fl (1 - delta) \<le> fl (127 / 128)"
    using assms by (intro fl_mono) simp
  moreover have "fl (129 / 128) \<le> fl (1 + delta)"
    using assms by (intro fl_mono) simp
  ultimately show ?thesis by (simp add: fl_dyadic)
qed

text \<open>
  C2: in an iteration with both elements, no end-of-stream proximity and a difference of
  at least \<open>HARD\<close> (0.08 s) between the follower's and the reference's current time,
  \<open>step\<close> sets the follower's playback rate to 1 and then its current time to the
  reference's, and makes no other call but the scheduling of the next iteration. (The
  rounded difference the code tests is then at least the double 0.08, since rounding is
  monotone.)
\<close>

theorem C2_hard_snap:
  assumes "leftRef s = Some L" and "rightRef s = Some R"
    and "\<not> nearEnd (media s L)"
    and "\<bar>currentTime (media s R) - currentTime (media s L)\<bar> \<ge> HARD"
  shows "playbackRate (media (step playing now s) R) = 1 \<and>
         currentTime (media (step playing now s) R) = currentTime (media s L) \<and>
         (\<exists>c. schedulingCall c \<and> calls (step playing now s) =
            calls s @ [SetPlaybackRate R 1, SetCurrentTime R (currentTime (media s L)), c])"
proof -
  have st: "step playing now s = scheduleStep playing (correctDrift L R s)"
    using assms(1-3) by (rule step_correctDrift)
  have "fl HARD \<le> \<bar>fl (currentTime (media s R) - currentTime (media s L))\<bar>"
    using assms(4) by (intro fl_abs_mono) simp
  then have cd: "correctDrift L R s =
      setCurrentTime R (currentTime (media s L)) (setPlaybackRate R 1 s)"
    by (rule correctDrift_hard)
  obtain c where c: "schedulingCall c"
    "calls (step playing now s) = calls (correctDrift L R s) @ [c]"
    unfolding st using calls_scheduleStep by blast
  show ?thesis
    using c by (auto simp add: st media_scheduleStep cd setCurrentTime_def setPlaybackRate_def)
qed

theorem C2_hard_snap_witness:
  "leftRef (playingAt 1 0.9 (Fin 10)) = Some 0 \<and> rightRef (playingAt 1 0.9 (Fin 10)) = Some 1 \<and>
   \<not> nearEnd (media (playingAt 1 0.9 (Fin 10)) 0) \<and>
   \<bar>currentTime (media (playingAt 1 0.9 (Fin 10)) 1) - currentTime (media (playingAt 1 0.9 (Fin 10)) 0)\<bar> \<ge> HARD \<and>
   playbackRate (media (step True 5000 (playingAt 1 0.9 (Fin 10))) 1) = 1 \<and>
   currentTime (media (step True 5000 (playingAt 1 0.9 (Fin 10))) 1) = 1"
proof -
  let ?s = "playingAt 1 0.9 (Fin 10)"
  have h1: "leftRef ?s = Some 0" and h2: "rightRef ?s = Some 1"
    by (simp_all add: playingAt_def attachRefs_def)
  have h3: "\<not> nearEnd (media ?s 0)"
    by (simp add: playingAt_def nearEnd_def isFinite_def newVideo_def LOOP_GAP_def)
  have h4: "\<bar>currentTime (media ?s 1) - currentTime (media ?s 0)\<bar> \<ge> HARD"
    by (simp add: playingAt_def HARD_def)
  have ct: "currentTime (media ?s 0) = 1"
    by (simp add: playingAt_def)
  show ?thesis
    using C2_hard_snap [OF h1 h2 h3 h4, of True 5000] h1 h2 h3 h4 ct by simp
qed

text \<open>
  C3, as stated, fails: with the reference at the double 0.01 and the follower at the
  double 0.09, the difference of the two current times is at least 0.02 and below 0.08,
  but the code's subtraction rounds it to the double 0.08, which passes the test against
  \<open>HARD\<close>: the follower, though ahead, is not slowed down but gets the rate 1 and the
  reference's current time.
\<close>

theorem C3_counterexample:
  "leftRef (playingAt (fl 0.01) (fl 0.09) (Fin 10)) = Some 0 \<and>
   rightRef (playingAt (fl 0.01) (fl 0.09) (Fin 10)) = Some 1 \<and>
   \<not> nearEnd (media (playingAt (fl 0.01) (fl 0.09) (Fin 10)) 0) \<and>
   0.02 \<le> currentTime (media (playingAt (fl 0.01) (fl 0.09) (Fin 10)) 1) -
           currentTime (media (playingAt (fl 0.01) (fl 0.09) (Fin 10)) 0) \<and>
   currentTime (media (playingAt (fl 0.01) (fl 0.09) (Fin 10)) 1) -
     currentTime (media (playingAt (fl 0.01) (fl 0.09) (Fin 10)) 0) < 0.08 \<and>
   playbackRate (media (step True 5000 (playingAt (fl 0.01) (fl 0.09) (Fin 10))) 1) = 1 \<and>
   calls (step True 5000 (playingAt (fl 0.01) (fl 0.09) (Fin 10))) =
     [SetPlaybackRate 1 1, SetCurrentTime 1 (fl 0.01), RequestVideoFrameCallback 0 1]"
proof -
  let ?s = "playingAt (fl 0.01) (fl 0.09) (Fin 10)"
  have b: "fl (9 / 100) = 3242591731706757 / 2 ^ 55"
    using fl_eval [of "- 4" "9 / 100"] by (simp add: rne_def Let_def)
  have d: "fl (46116860184273877 / 576460752303423488) = 5764607523034235 / 2 ^ 56"
    using fl_eval [of "- 4" "46116860184273877 / 576460752303423488"]
    by (simp add: rne_def Let_def)
  have far: "\<not> nearEnd (media ?s 0)"
    by (simp add: nearEnd_Fin playingAt_simps LOOP_GAP_def fl_001)
  have hard: "fl HARD \<le> \<bar>fl (currentTime (media ?s 1) - currentTime (media ?s 0))\<bar>"
    by (simp add: playingAt_simps fl_001 b d fl_HARD)
  have st: "step True 5000 ?s =
      scheduleStep True (setCurrentTime 1 (currentTime (media ?s 0)) (setPlaybackRate 1 1 ?s))"
    using far correctDrift_hard [OF hard] by (simp add: step_def playingAt_simps)
  have res: "playbackRate (media (step True 5000 ?s) 1) = 1 \<and>
      calls (step True 5000 ?s) =
        [SetPlaybackRate 1 1, SetCurrentTime 1 (fl 0.01), RequestVideoFrameCallback 0 1]"
    unfolding st
    by (simp add: playingAt_def attachRefs_def initialState_def newVideo_def
        setCurrentTime_def setPlaybackRate_def scheduleStep_def requestVideoFrameCallback_def
        Let_def)
  show ?thesis
    using far res by (simp add: playingAt_simps fl_001 b)
qed

text \<open>
  C3 (amended): in an iteration with both elements and no end-of-stream proximity, let
  \<open>diff\<close> be the follower's current time minus the reference's as the code computes it,
  rounded to the nearest double. When \<open>|diff|\<close> is at least the double 0.02 and below the
  double 0.08, \<open>step\<close> sets the follower's playback rate to the double nearest to 1 plus
  a signed \<open>delta\<close>: below 1 when the follower is ahead, above 1 when it is behind,
  with \<open>delta\<close> between 0.01 and 0.05.
\<close>

theorem C3_soft_nudge:
  assumes "leftRef s = Some L" and "rightRef s = Some R"
    and "\<not> nearEnd (media s L)"
    and "fl SOFT \<le> \<bar>fl (currentTime (media s R) - currentTime (media s L))\<bar>"
    and "\<bar>fl (currentTime (media s R) - currentTime (media s L))\<bar> < fl HARD"
  shows "(let diff = fl (currentTime (media s R) - currentTime (media s L));
              delta = min (fl 0.05) (max (fl 0.01) (fl (\<bar>diff\<bar> * fl 0.6)));
              rate = playbackRate (media (step playing now s) R)
          in 0.01 \<le> delta \<and> delta \<le> 0.05 \<and>
             rate = fl (if diff < 0 then 1 + delta else 1 - delta) \<and>
             (0 < diff \<longrightarrow> rate < 1) \<and> (diff < 0 \<longrightarrow> 1 < rate) \<and>
             currentTime (media (step playing now s) R) = currentTime (media s R) \<and>
             (\<exists>c. schedulingCall c \<and>
                  calls (step playing now s) = calls s @ [SetPlaybackRate R rate, c]))"
proof -
  define diff where "diff = fl (currentTime (media s R) - currentTime (media s L))"
  define delta where "delta = min (fl 0.05) (max (fl 0.01) (fl (\<bar>diff\<bar> * fl 0.6)))"
  have band: "fl SOFT \<le> \<bar>diff\<bar>" "\<bar>diff\<bar> < fl HARD"
    using assms(4,5) by (simp_all add: diff_def)
  have st: "step playing now s = scheduleStep playing (correctDrift L R s)"
    using assms(1-3) by (rule step_correctDrift)
  have cd: "correctDrift L R s =
      setPlaybackRate R (fl (if diff < 0 then 1 + delta else 1 - delta)) s"
    using correctDrift_soft [OF assms(4,5)] unfolding diff_def delta_def .
  have d: "0.01 \<le> delta" "delta \<le> 0.05"
    using soft_delta [OF band(2)] by (simp_all add: delta_def)
  have dir: "fl (1 - delta) < 1" "1 < fl (1 + delta)"
    using soft_rate [OF d(1)] by simp_all
  obtain c where c: "schedulingCall c"
    "calls (step playing now s) = calls (correctDrift L R s) @ [c]"
    unfolding st using calls_scheduleStep by blast
  have rate: "playbackRate (media (step playing now s) R) =
      fl (if diff < 0 then 1 + delta else 1 - delta)"
    by (simp add: st media_scheduleStep cd setPlaybackRate_def)
  have time: "currentTime (media (step playing now s) R) = currentTime (media s R)"
    by (simp add: st media_scheduleStep cd setPlaybackRate_def)
  have cs: "calls (step playing now s) =
      calls s @ [SetPlaybackRate R (playbackRate (media (step playing now s) R)), c]"
    unfolding rate using c(2) by (simp add: cd setPlaybackRate_def)
  show ?thesis
    unfolding Let_def diff_def [symmetric] delta_def [symmetric]
    using d dir rate time cs c(1) by auto
qed

text \<open>
  The two cases of C3, at doubles: a follower at 1.04 s is ahead of a reference at 1 s
  and gets a rate below 1; a follower at 0.96 s is behind and gets a rate above 1.
\<close>

theorem C3_soft_nudge_witness:
  "(fl SOFT \<le> \<bar>fl (currentTime (media (playingAt 1 (fl 1.04) (Fin 10)) 1) -
                    currentTime (media (playingAt 1 (fl 1.04) (Fin 10)) 0))\<bar> \<and>
    \<bar>fl (currentTime (media (playingAt 1 (fl 1.04) (Fin 10)) 1) -
         currentTime (media (playingAt 1 (fl 1.04) (Fin 10)) 0))\<bar> < fl HARD \<and>
    playbackRate (media (step True 5000 (playingAt 1 (fl 1.04) (Fin 10))) 1) < 1) \<and>
   (fl SOFT \<le> \<bar>fl (currentTime (media (playingAt 1 (fl 0.96) (Fin 10)) 1) -
                    currentTime (media (playingAt 1 (fl 0.96) (Fin 10)) 0))\<bar> \<and>
    \<bar>fl (currentTime (media (playingAt 1 (fl 0.96) (Fin 10)) 1) -
         currentTime (media (playingAt 1 (fl 0.96) (Fin 10)) 0))\<bar> < fl HARD \<and>
    1 < playbackRate (media (step True 5000 (playingAt 1 (fl 0.96) (Fin 10))) 1))"
proof -
  let ?a = "playingAt 1 (fl 1.04) (Fin 10)" and ?b = "playingAt 1 (fl 0.96) (Fin 10)"
  have va: "fl (26 / 25) = 1170935903116329 / 2 ^ 50"
    using fl_eval [of 0 "26 / 25"] by (simp add: rne_def Let_def)
  have vb: "fl (24 / 25) = 1080863910568919 / 2 ^ 50"
    using fl_eval [of "- 1" "24 / 25"] by (simp add: rne_def Let_def)
  have da: "fl (45035996273705 / 1125899906842624) = 45035996273705 / 2 ^ 50"
    using fl_eval [of "- 5" "45035996273705 / 1125899906842624"] by (simp add: rne_def Let_def)
  have a1: "leftRef ?a = Some 0" and a2: "rightRef ?a = Some 1"
    and b1: "leftRef ?b = Some 0" and b2: "rightRef ?b = Some 1"
    by (simp_all add: playingAt_simps)
  have a3: "\<not> nearEnd (media ?a 0)" and b3: "\<not> nearEnd (media ?b 0)"
    by (simp_all add: nearEnd_Fin playingAt_simps LOOP_GAP_def)
  have dfa: "fl (currentTime (media ?a 1) - currentTime (media ?a 0)) = 45035996273705 / 2 ^ 50"
    and dfb: "fl (currentTime (media ?b 1) - currentTime (media ?b 0)) =
              - (45035996273705 / 2 ^ 50)"
    by (simp_all add: playingAt_simps va vb da fl_minus)
  have a4: "fl SOFT \<le> \<bar>fl (currentTime (media ?a 1) - currentTime (media ?a 0))\<bar>"
    and a5: "\<bar>fl (currentTime (media ?a 1) - currentTime (media ?a 0))\<bar> < fl HARD"
    and b4: "fl SOFT \<le> \<bar>fl (currentTime (media ?b 1) - currentTime (media ?b 0))\<bar>"
    and b5: "\<bar>fl (currentTime (media ?b 1) - currentTime (media ?b 0))\<bar> < fl HARD"
    unfolding dfa dfb by (simp_all add: fl_SOFT fl_HARD)
  have ra: "playbackRate (media (step True 5000 ?a) 1) < 1"
    using C3_soft_nudge [OF a1 a2 a3 a4 a5, of True 5000] unfolding Let_def dfa by simp
  have rb: "1 < playbackRate (media (step True 5000 ?b) 1)"
    using C3_soft_nudge [OF b1 b2 b3 b4 b5, of True 5000] unfolding Let_def dfb by simp
  show ?thesis
    using a4 a5 b4 b5 ra rb by simp
qed

lemma syncRestart_rate:
  "playbackRate (media s R) = 1 \<Longrightarrow> playbackRate (media (syncRestart playing now s) R) = 1"
  by (simp add: syncRestart_def seekTo_def setCurrentTime_def setPlaybackRate_def pause_def
      split: option.splits)

text \<open>
  C8, as stated, fails, in two ways. With both elements at 9.98 s of 10 s (difference 0,
  follower's rate 1) the iteration is within \<open>LOOP_GAP\<close> of the end, calls
  \<open>syncRestart\<close>, and that writes 1 to the follower's playback rate. And with the
  reference at the double 0.003 and the follower at the double 0.023 (follower's rate 1,
  far from the end), the difference of the two current times is below 0.02, but the
  code's subtraction rounds it to the double 0.02, which passes the test against
  \<open>SOFT\<close>: the iteration writes a rate below 1.
\<close>

theorem C8_counterexample:
  "(leftRef (playingAt 9.98 9.98 (Fin 10)) = Some 0 \<and>
    rightRef (playingAt 9.98 9.98 (Fin 10)) = Some 1 \<and>
    \<bar>currentTime (media (playingAt 9.98 9.98 (Fin 10)) 1) -
     currentTime (media (playingAt 9.98 9.98 (Fin 10)) 0)\<bar> < SOFT \<and>
    playbackRate (media (playingAt 9.98 9.98 (Fin 10)) 1) = 1 \<and>
    calls (playingAt 9.98 9.98 (Fin 10)) = [] \<and>
    calls (step True 1000 (playingAt 9.98 9.98 (Fin 10))) =
      [Pause 0, Pause 1, SetPlaybackRate 0 1, SetPlaybackRate 1 1,
       SetCurrentTime 0 0, SetCurrentTime 1 0, RequestVideoFrameCallback 0 1]) \<and>
   (leftRef (playingAt (fl 0.003) (fl 0.023) (Fin 10)) = Some 0 \<and>
    rightRef (playingAt (fl 0.003) (fl 0.023) (Fin 10)) = Some 1 \<and>
    \<not> nearEnd (media (playingAt (fl 0.003) (fl 0.023) (Fin 10)) 0) \<and>
    \<bar>currentTime (media (playingAt (fl 0.003) (fl 0.023) (Fin 10)) 1) -
     currentTime (media (playingAt (fl 0.003) (fl 0.023) (Fin 10)) 0)\<bar> < SOFT \<and>
    playbackRate (media (playingAt (fl 0.003) (fl 0.023) (Fin 10)) 1) = 1 \<and>
    playbackRate (media (step True 5000 (playingAt (fl 0.003) (fl 0.023) (Fin 10))) 1) < 1 \<and>
    calls (step True 5000 (playingAt (fl 0.003) (fl 0.023) (Fin 10))) =
      [SetPlaybackRate 1
         (playbackRate (media (step True 5000 (playingAt (fl 0.003) (fl 0.023) (Fin 10))) 1)),
       RequestVideoFrameCallback 0 1])"
proof -
  let ?s = "playingAt 9.98 9.98 (Fin 10)"
  have near: "nearEnd (media ?s 0)"
    by (simp add: nearEnd_Fin playingAt_simps LOOP_GAP_def)
  have st: "step True 1000 ?s = scheduleStep True (syncRestart True 1000 ?s)"
    using near by (simp add: step_def playingAt_simps)
  have "calls (step True 1000 ?s) =
     [Pause 0, Pause 1, SetPlaybackRate 0 1, SetPlaybackRate 1 1,
      SetCurrentTime 0 0, SetCurrentTime 1 0, RequestVideoFrameCallback 0 1]"
    unfolding st
    by (simp add: playingAt_def attachRefs_def initialState_def newVideo_def
        syncRestart_def seekTo_def setCurrentTime_def setPlaybackRate_def pause_def
        scheduleStep_def requestVideoFrameCallback_def Let_def)
  then have first: "leftRef ?s = Some 0 \<and> rightRef ?s = Some 1 \<and>
    \<bar>currentTime (media ?s 1) - currentTime (media ?s 0)\<bar> < SOFT \<and>
    playbackRate (media ?s 1) = 1 \<and> calls ?s = [] \<and>
    calls (step True 1000 ?s) =
      [Pause 0, Pause 1, SetPlaybackRate 0 1, SetPlaybackRate 1 1,
       SetCurrentTime 0 0, SetCurrentTime 1 0, RequestVideoFrameCallback 0 1]"
    by (simp add: playingAt_simps SOFT_def)
  let ?t = "playingAt (fl 0.003) (fl 0.023) (Fin 10)"
  have a: "fl (23 / 1000) = 3314649325744685 / 2 ^ 57"
    using fl_eval [of "- 6" "23 / 1000"] by (simp add: rne_def Let_def)
  have b: "fl (3 / 1000) = 3458764513820541 / 2 ^ 60"
    using fl_eval [of "- 9" "3 / 1000"] by (simp add: rne_def Let_def)
  have c: "fl (23058430092136939 / 1152921504606846976) = 5764607523034235 / 2 ^ 58"
    using fl_eval [of "- 6" "23058430092136939 / 1152921504606846976"]
    by (simp add: rne_def Let_def)
  have df: "fl (currentTime (media ?t 1) - currentTime (media ?t 0)) = 5764607523034235 / 2 ^ 58"
    by (simp add: playingAt_simps a b c)
  have far: "\<not> nearEnd (media ?t 0)"
    by (simp add: nearEnd_Fin playingAt_simps LOOP_GAP_def b)
  have lo: "fl SOFT \<le> \<bar>fl (currentTime (media ?t 1) - currentTime (media ?t 0))\<bar>"
    and hi: "\<bar>fl (currentTime (media ?t 1) - currentTime (media ?t 0))\<bar> < fl HARD"
    unfolding df by (simp_all add: fl_SOFT fl_HARD)
  define delta where
    "delta = min (fl 0.05) (max (fl 0.01) (fl (\<bar>5764607523034235 / 2 ^ 58\<bar> * fl 0.6)))"
  have dl: "0.01 \<le> delta"
    using soft_delta [OF hi] unfolding df delta_def by simp
  have cd: "correctDrift 0 1 ?t = setPlaybackRate 1 (fl (1 - delta)) ?t"
    using correctDrift_soft [OF lo hi] unfolding df delta_def by simp
  have stt: "step True 5000 ?t = scheduleStep True (setPlaybackRate 1 (fl (1 - delta)) ?t)"
    using far cd by (simp add: step_def playingAt_simps)
  have rate: "playbackRate (media (step True 5000 ?t) 1) = fl (1 - delta)"
    unfolding stt by (simp add: media_scheduleStep setPlaybackRate_def)
  have cs: "calls (step True 5000 ?t) =
      [SetPlaybackRate 1 (fl (1 - delta)), RequestVideoFrameCallback 0 1]"
    unfolding stt
    by (simp add: playingAt_def attachRefs_def initialState_def newVideo_def
        setPlaybackRate_def scheduleStep_def requestVideoFrameCallback_def Let_def)
  have second: "leftRef ?t = Some 0 \<and> rightRef ?t = Some 1 \<and> \<not> nearEnd (media ?t 0) \<and>
    \<bar>currentTime (media ?t 1) - currentTime (media ?t 0)\<bar> < SOFT \<and>
    playbackRate (media ?t 1) = 1 \<and>
    playbackRate (media (step True 5000 ?t) 1) < 1 \<and>
    calls (step True 5000 ?t) =
      [SetPlaybackRate 1 (playbackRate (media (step True 5000 ?t) 1)),
       RequestVideoFrameCallback 0 1]"
    using far soft_rate [OF dl] unfolding rate cs
    by (simp add: playingAt_simps a b SOFT_def)
  from first second show ?thesis by simp
qed

text \<open>
  C8 (amended): in an iteration with both elements and the follower's playback rate
  equal to 1, in which the difference of the follower's and the reference's current time
  as the code computes it, rounded to the nearest double, is below the double 0.02 in
  absolute value, the follower's playback rate is 1 afterwards; and when end-of-stream
  proximity is not triggered the iteration writes nothing to any element: its only call
  schedules the next iteration.
\<close>

theorem C8_idempotent_at_zero_error:
  assumes "leftRef s = Some L" and "rightRef s = Some R"
    and "\<bar>fl (currentTime (media s R) - currentTime (media s L))\<bar> < fl SOFT"
    and "playbackRate (media s R) = 1"
  shows "playbackRate (media (step playing now s) R) = 1 \<and>
         (\<not> nearEnd (media s L) \<longrightarrow>
            media (step playing now s) = media s \<and>
            (\<exists>c. schedulingCall c \<and> calls (step playing now s) = calls s @ [c]))"
proof (cases "nearEnd (media s L)")
  case True
  then have "step playing now s = scheduleStep playing (syncRestart playing now s)"
    using assms(1,2) by (simp add: step_syncRestart)
  with True assms(4) show ?thesis
    by (simp add: media_scheduleStep syncRestart_rate)
next
  case False
  then have st: "step playing now s = scheduleStep playing (correctDrift L R s)"
    using assms(1,2) by (simp add: step_correctDrift)
  have cd: "correctDrift L R s = s"
    using assms(3,4) by (rule correctDrift_none)
  show ?thesis
    using False assms(4) calls_scheduleStep [of playing s]
    by (simp add: st cd media_scheduleStep)
qed

theorem C8_idempotent_at_zero_error_witness:
  "leftRef (playingAt 3 (fl 3.01) (Fin 10)) = Some 0 \<and>
   rightRef (playingAt 3 (fl 3.01) (Fin 10)) = Some 1 \<and>
   \<bar>fl (currentTime (media (playingAt 3 (fl 3.01) (Fin 10)) 1) -
        currentTime (media (playingAt 3 (fl 3.01) (Fin 10)) 0))\<bar> < fl SOFT \<and>
   playbackRate (media (playingAt 3 (fl 3.01) (Fin 10)) 1) = 1 \<and>
   \<not> nearEnd (media (playingAt 3 (fl 3.01) (Fin 10)) 0) \<and>
   media (step True 5000 (playingAt 3 (fl 3.01) (Fin 10))) =
     media (playingAt 3 (fl 3.01) (Fin 10))"
proof -
  let ?s = "playingAt 3 (fl 3.01) (Fin 10)"
  have v: "fl (301 / 100) = 1694479359798149 / 2 ^ 49"
    using fl_eval [of 1 "301 / 100"] by (simp add: rne_def Let_def)
  have d: "fl (5629499534213 / 562949953421312) = 5629499534213 / 2 ^ 49"
    using fl_eval [of "- 7" "5629499534213 / 562949953421312"] by (simp add: rne_def Let_def)
  have h1: "leftRef ?s = Some 0" and h2: "rightRef ?s = Some 1"
    and h4: "playbackRate (media ?s 1) = 1"
    by (simp_all add: playingAt_simps)
  have h3: "\<bar>fl (currentTime (media ?s 1) - currentTime (media ?s 0))\<bar> < fl SOFT"
    by (simp add: playingAt_simps v d fl_SOFT)
  have far: "\<not> nearEnd (media ?s 0)"
    by (simp add: nearEnd_Fin playingAt_simps LOOP_GAP_def)
  show ?thesis
    using C8_idempotent_at_zero_error [OF h1 h2 h3 h4, of True 5000] h1 h2 h3 h4 far
    by simp
qed

subsection \<open>The debounce of syncRestart\<close>

lemma syncRestart_debounced:
  "now - justLoopedAt s < 200 \<Longrightarrow> syncRestart playing now s = s"
  by (simp add: syncRestart_def split: option.splits)

lemma syncRestart_noop:
  "\<not> performed s (syncRestart playing now s) \<Longrightarrow> syncRestart playing now s = s"
  by (simp add: performed_def syncRestart_def seekTo_def setCurrentTime_def setPlaybackRate_def
      pause_def split: option.splits if_splits)

lemma syncRestart_performed:
  "performed s (syncRestart playing now s) \<Longrightarrow>
   justLoopedAt (syncRestart playing now s) = now \<and> playing \<and> 200 \<le> now - justLoopedAt s"
  by (simp add: performed_def syncRestart_def seekTo_def setCurrentTime_def setPlaybackRate_def
      pause_def split: option.splits if_splits)

lemma syncRestart_performed_calls:
  "performed s (syncRestart playing now s) \<Longrightarrow> leftRef s = Some L \<Longrightarrow> rightRef s = Some R \<Longrightarrow>
   calls (syncRestart playing now s) =
     calls s @ [Pause L, Pause R, SetPlaybackRate L 1, SetPlaybackRate R 1,
                SetCurrentTime L 0, SetCurrentTime R 0]"
  by (simp add: performed_def syncRestart_def seekTo_def setCurrentTime_def setPlaybackRate_def
      pause_def split: option.splits if_splits)

lemma length_restarts: "length (restarts vs s) = length vs"
  by (induction vs arbitrary: s) (simp_all add: Let_def)

lemma restarts_window:
  assumes "\<forall>v \<in> set vs. keepsJustLoopedAt (inv_before v)"
    and "j < length vs"
    and "\<forall>k \<le> j. inv_now (vs ! k) - justLoopedAt s < 200"
  shows "\<not> restarts vs s ! j"
  using assms
proof (induction vs arbitrary: s j)
  case Nil
  then show ?case by simp
next
  case (Cons v vs)
  let ?s0 = "inv_before v s"
  have j0: "justLoopedAt ?s0 = justLoopedAt s"
    using Cons.prems(1) by (simp add: keepsJustLoopedAt_def)
  have "inv_now v - justLoopedAt s < 200"
    using Cons.prems(3) by force
  then have noop: "syncRestart (inv_playing v) (inv_now v) ?s0 = ?s0"
    using j0 by (simp add: syncRestart_debounced)
  show ?case
  proof (cases j)
    case 0
    then show ?thesis by (simp add: Let_def noop performed_def)
  next
    case (Suc j')
    have win: "\<forall>k \<le> j'. inv_now (vs ! k) - justLoopedAt ?s0 < 200"
    proof (intro allI impI)
      fix k assume "k \<le> j'"
      then have "Suc k \<le> j" using Suc by simp
      with Cons.prems(3) have "inv_now ((v # vs) ! Suc k) - justLoopedAt s < 200" by blast
      then show "inv_now (vs ! k) - justLoopedAt ?s0 < 200" using j0 by simp
    qed
    have jlen: "j' < length vs" using Cons.prems(2) Suc by simp
    have keep: "\<forall>v \<in> set vs. keepsJustLoopedAt (inv_before v)"
      using Cons.prems(1) by simp
    have "\<not> restarts vs ?s0 ! j'" by (rule Cons.IH [OF keep jlen win])
    then show ?thesis using Suc by (simp add: Let_def noop)
  qed
qed

text \<open>
  C5 (amended): in a run of invocations of \<open>syncRestart\<close> at non-decreasing times, of two
  invocations less than 200 ms apart at most one performs the restart sequence; so when
  the earlier one performs it, the later one is a no-op (\<open>syncRestart_noop\<close>: it leaves
  the state as it is).
\<close>

theorem C5_restart_debounced:
  assumes "sorted (map inv_now vs)"
    and "\<forall>v \<in> set vs. keepsJustLoopedAt (inv_before v)"
    and "i < j" and "j < length vs"
    and "inv_now (vs ! j) - inv_now (vs ! i) < 200"
  shows "\<not> (restarts vs s ! i \<and> restarts vs s ! j)"
  using assms
proof (induction vs arbitrary: s i j)
  case Nil
  then show ?case by simp
next
  case (Cons v vs)
  let ?s0 = "inv_before v s"
  let ?s1 = "syncRestart (inv_playing v) (inv_now v) ?s0"
  obtain j' where j': "j = Suc j'" using Cons.prems(3) by (cases j) simp_all
  have keep: "\<forall>v \<in> set vs. keepsJustLoopedAt (inv_before v)"
    using Cons.prems(2) by simp
  have sorted_tl: "sorted (map inv_now vs)"
    using Cons.prems(1) by simp
  have jlen: "j' < length vs" using Cons.prems(4) j' by simp
  show ?case
  proof (cases i)
    case 0
    show ?thesis
    proof (cases "performed ?s0 ?s1")
      case False
      then show ?thesis using 0 by (simp add: Let_def)
    next
      case True
      then have at: "justLoopedAt ?s1 = inv_now v"
        by (simp add: syncRestart_performed)
      have "\<forall>k \<le> j'. inv_now (vs ! k) - justLoopedAt ?s1 < 200"
      proof (intro allI impI)
        fix k assume k: "k \<le> j'"
        have "map inv_now vs ! k \<le> map inv_now vs ! j'"
          using sorted_tl k jlen by (simp add: sorted_nth_mono del: nth_map)
        then have "inv_now (vs ! k) \<le> inv_now (vs ! j')"
          using k jlen by simp
        moreover have "inv_now (vs ! j') - inv_now v < 200"
          using Cons.prems(5) 0 j' by simp
        ultimately show "inv_now (vs ! k) - justLoopedAt ?s1 < 200"
          using at by simp
      qed
      then have "\<not> restarts vs ?s1 ! j'"
        by (rule restarts_window [OF keep jlen])
      then show ?thesis using j' by (simp add: Let_def)
    qed
  next
    case (Suc i')
    have "\<not> (restarts vs ?s1 ! i' \<and> restarts vs ?s1 ! j')"
    proof (rule Cons.IH [OF sorted_tl keep _ jlen])
      show "i' < j'" using Cons.prems(3) Suc j' by simp
      show "inv_now (vs ! j') - inv_now (vs ! i') < 200"
        using Cons.prems(5) Suc j' by simp
    qed
    then show ?thesis using Suc j' by (simp add: Let_def)
  qed
qed

lemma keeps_examples:
  "keepsJustLoopedAt (pause v)" "keepsJustLoopedAt (correctDrift L R)" "keepsJustLoopedAt (\<lambda>s. s)"
  by (simp_all add: keepsJustLoopedAt_def pause_def correctDrift_def Let_def
      setPlaybackRate_def setCurrentTime_def)

lemma restarts_three:
  "restarts threeRestarts (playingAt 5 5 (Fin 10)) = [True, False, True]"
  by (simp add: threeRestarts_def Let_def performed_def syncRestart_def seekTo_def
      setCurrentTime_def setPlaybackRate_def pause_def correctDrift_def fl_zero fl_HARD fl_SOFT
      playingAt_def attachRefs_def initialState_def newVideo_def)

text \<open>
  C5, as stated, fails: the window is counted from the last restart that was performed,
  not from the last invocation. Of the invocations at 1000 ms, 1150 ms and 1300 ms the
  second is a no-op, and the third, 150 ms after the second, performs the sequence.
\<close>

theorem C5_counterexample:
  "sorted (map inv_now threeRestarts) \<and>
   inv_now (threeRestarts ! 2) - inv_now (threeRestarts ! 1) < 200 \<and>
   restarts threeRestarts (playingAt 5 5 (Fin 10)) ! 2"
  by (simp add: restarts_three) (simp add: threeRestarts_def)

theorem C5_restart_debounced_witness:
  "sorted (map inv_now threeRestarts) \<and>
   inv_now (threeRestarts ! 1) - inv_now (threeRestarts ! 0) < 200 \<and>
   restarts threeRestarts (playingAt 5 5 (Fin 10)) ! 0 \<and>
   \<not> restarts threeRestarts (playingAt 5 5 (Fin 10)) ! 1"
proof -
  have h1: "sorted (map inv_now threeRestarts)"
    by (simp add: threeRestarts_def)
  have h2: "\<forall>v \<in> set threeRestarts. keepsJustLoopedAt (inv_before v)"
    by (simp add: threeRestarts_def keeps_examples)
  have h3: "(0::nat) < 1" and h4: "1 < length threeRestarts"
    by (simp_all add: threeRestarts_def)
  have h5: "inv_now (threeRestarts ! 1) - inv_now (threeRestarts ! 0) < 200"
    by (simp add: threeRestarts_def)
  have first: "restarts threeRestarts (playingAt 5 5 (Fin 10)) ! 0"
    by (simp add: restarts_three)
  show ?thesis
    using C5_restart_debounced [OF h1 h2 h3 h4 h5, of "playingAt 5 5 (Fin 10)"] h1 h5 first
    by simp
qed

subsection \<open>Scheduling and cancelling the sync loop\<close>

lemmas eval_defs =
  mounted_def toggleEffect_def loadAndStart_begin_def loadAndStart_resume_def loadAndStart_def
  attachRefs_def detachRefs_def initialState_def newVideo_def activeEffectCleanup_def
  cancelSyncLoop_def scheduleStep_def startSyncLoop_def resetAndLoad_def
  requestVideoFrameCallback_def requestAnimationFrame_def cancelVideoFrameCallback_def
  cancelAnimationFrame_def setCurrentTime_def setPlaybackRate_def pause_def load_def
  requestPlay_def setIsPlaying_def waitBothReady_def waitReady_def Let_def

lemma mountedLooping_loop:
  "loopHandle mountedLooping = Some \<lparr>kind = vfc, ident = 1\<rparr> \<and>
   vfcCallbacks mountedLooping = [((0, 1), True)] \<and> rafCallbacks mountedLooping = [] \<and>
   leftRef mountedLooping = Some 0 \<and> rightRef mountedLooping = Some 1"
  by (simp add: mountedLooping_def eval_defs)

text \<open>
  C7, evaluated where the code breaks it: at the unmount the loop handle is of kind
  \<open>vfc\<close> and the left ref is \<^verbatim>\<open>null\<close>; \<open>cancelSyncLoop\<close> then calls
  \<^verbatim>\<open>cancelAnimationFrame\<close> with the video frame callback's identifier, and the
  callback stays registered.
\<close>

theorem C7_cancel_mismatch:
  "loopHandle unmounting = Some \<lparr>kind = vfc, ident = 1\<rparr> \<and>
   leftRef unmounting = None \<and>
   vfcCallbacks unmounting = [((0, 1), True)] \<and>
   calls (cancelSyncLoop unmounting) = calls unmounting @ [CancelAnimationFrame 1] \<and>
   vfcCallbacks (cancelSyncLoop unmounting) = [((0, 1), True)] \<and>
   loopHandle (cancelSyncLoop unmounting) = None"
  by (simp add: unmounting_def mountedLooping_def eval_defs)

text \<open>
  C1, evaluated where the code breaks it: after the unmount the video frame callback that
  \<open>cancelSyncLoop\<close> did not cancel is still pending when the resumed \<open>loadAndStart\<close>
  starts a new loop, so two iterations are scheduled.
\<close>

theorem C1_two_iterations_scheduled:
  "scheduled mountedLooping = 1 \<and>
   scheduled afterUnmount = 2 \<and>
   vfcCallbacks afterUnmount = [((0, 1), True)] \<and>
   rafCallbacks afterUnmount = [(1, True)] \<and>
   loopHandle afterUnmount = Some \<lparr>kind = raf, ident = 1\<rparr>"
  by (simp add: afterUnmount_def unmounting_def mountedLooping_def scheduled_def eval_defs)

lemma pair_switch_keeps_old_iteration:
  "vfcCallbacks afterPairSwitch = [((0, 1), True), ((2, 1), True)] \<and>
   loopHandle afterPairSwitch = Some \<lparr>kind = vfc, ident = 1\<rparr> \<and>
   CancelVideoFrameCallback 2 1 \<in> set (calls afterPairSwitch) \<and>
   vfcCallbacks (runVideoFrameCallback 0 1 5000 afterPairSwitch) =
     [((2, 1), True), ((2, 2), True)]"
  by (simp add: afterPairSwitch_def mountedLooping_def eval_defs runVideoFrameCallback_def
      step_def nearEnd_def isFinite_def correctDrift_def fl_zero fl_HARD fl_SOFT)

lemma cancelSyncLoop_raf:
  "loopHandle s = Some h \<Longrightarrow> kind h = raf \<Longrightarrow>
   calls (cancelSyncLoop s) = calls s @ [CancelAnimationFrame (ident h)]"
  by (simp add: cancelSyncLoop_def cancelAnimationFrame_def split: option.splits)

lemma cancelSyncLoop_vfc:
  "loopHandle s = Some h \<Longrightarrow> kind h = vfc \<Longrightarrow> leftRef s = Some L \<Longrightarrow> hasCancelVFC (media s L) \<Longrightarrow>
   calls (cancelSyncLoop s) = calls s @ [CancelVideoFrameCallback L (ident h)]"
  by (simp add: cancelSyncLoop_def cancelVideoFrameCallback_def)

lemma cancelSyncLoop_vfc_no_element:
  "loopHandle s = Some h \<Longrightarrow> kind h = vfc \<Longrightarrow> leftRef s = None \<Longrightarrow>
   calls (cancelSyncLoop s) = calls s @ [CancelAnimationFrame (ident h)] \<and>
   vfcCallbacks (cancelSyncLoop s) = vfcCallbacks s"
  by (simp add: cancelSyncLoop_def cancelAnimationFrame_def)

lemma filter_none: "list_all (\<lambda>c. fst c = k) xs \<Longrightarrow> filter (\<lambda>c. fst c \<noteq> k) xs = []"
  by (induction xs) simp_all

lemma cancelSyncLoop_tracked:
  assumes "tracked s"
  shows "scheduled (cancelSyncLoop s) = 0 \<and> loopHandle (cancelSyncLoop s) = None"
proof (cases "loopHandle s")
  case None
  with assms show ?thesis
    by (simp add: tracked_def cancelSyncLoop_def scheduled_def)
next
  case (Some h)
  show ?thesis
  proof (cases "kind h")
    case raf
    with Some assms show ?thesis
      by (simp add: tracked_def cancelSyncLoop_def scheduled_def cancelAnimationFrame_def
          filter_none split: option.splits)
  next
    case vfc
    with Some assms show ?thesis
      by (auto simp add: tracked_def cancelSyncLoop_def scheduled_def
          cancelVideoFrameCallback_def filter_none split: option.splits)
  qed
qed

lemma scheduled_scheduleStep: "scheduled (scheduleStep playing s) = Suc (scheduled s)"
  by (simp add: scheduleStep_def scheduled_def requestVideoFrameCallback_def
      requestAnimationFrame_def Let_def split: option.splits)

lemma startSyncLoop_tracked:
  "tracked s \<Longrightarrow> scheduled (startSyncLoop playing s) = 1"
  by (simp add: startSyncLoop_def scheduled_scheduleStep cancelSyncLoop_tracked)

lemma loopHandle_cancelSyncLoop: "loopHandle (cancelSyncLoop s) = None"
  by (simp add: cancelSyncLoop_def split: option.splits)

lemma loopHandle_resetAndLoad: "loopHandle (resetAndLoad v s) = loopHandle s"
  by (simp add: resetAndLoad_def load_def setCurrentTime_def setPlaybackRate_def pause_def)

lemma loopHandle_loadAndStart_begin:
  "leftRef s = Some L \<Longrightarrow> rightRef s = Some R \<Longrightarrow> loopHandle (loadAndStart_begin s) = None"
  by (simp add: loadAndStart_begin_def loopHandle_resetAndLoad loopHandle_cancelSyncLoop)

lemma cancelSyncLoop_no_handle: "loopHandle s = None \<Longrightarrow> cancelSyncLoop s = s"
  by (simp add: cancelSyncLoop_def)

lemma loopHandle_scheduleStep: "loopHandle (scheduleStep playing s) \<noteq> None"
  by (simp add: scheduleStep_def requestVideoFrameCallback_def requestAnimationFrame_def
      Let_def split: option.splits)

lemma isPlaying_scheduleStep: "isPlaying (scheduleStep playing s) = isPlaying s"
  by (simp add: scheduleStep_def requestVideoFrameCallback_def requestAnimationFrame_def
      Let_def split: option.splits)

text \<open>
  Whatever has run since \<open>loadAndStart\<close> was suspended: when a \<^verbatim>\<open>play()\<close> promise
  is rejected, the resumed function schedules and cancels nothing.
\<close>

lemma loadAndStart_resume_rejected:
  "outL = rejected \<or> outR = rejected \<Longrightarrow>
   isPlaying (loadAndStart_resume True playing L R outL outR s) = False \<and>
   loopHandle (loadAndStart_resume True playing L R outL outR s) = loopHandle s \<and>
   vfcCallbacks (loadAndStart_resume True playing L R outL outR s) = vfcCallbacks s \<and>
   rafCallbacks (loadAndStart_resume True playing L R outL outR s) = rafCallbacks s \<and>
   calls (loadAndStart_resume True playing L R outL outR s) =
     calls s @ [Play L, Play R, SetIsPlaying False]"
  by (auto simp add: loadAndStart_resume_def requestPlay_def setIsPlaying_def Let_def)

lemma loadAndStart_resume_fulfilled:
  "loadAndStart_resume True playing L R fulfilled fulfilled s =
     startSyncLoop playing (requestPlay R fulfilled (requestPlay L fulfilled s))"
  by (simp add: loadAndStart_resume_def Let_def)

text \<open>
  C6: \<open>loadAndStart\<close> with \<open>play = true\<close>, once both elements are ready, calls
  \<^verbatim>\<open>play()\<close> on both before it looks at either outcome; when both promises are
  fulfilled it starts the sync loop (one more iteration is scheduled) and leaves
  \<open>isPlaying\<close> as it is; when one is rejected it calls \<^verbatim>\<open>setIsPlaying(false)\<close> and
  schedules nothing.
\<close>

theorem C6_autoplay_fallback:
  assumes "leftRef s = Some L" and "rightRef s = Some R"
    and "waitBothReady evsL evsR (loadAndStart_begin s)"
  shows "(let s1 = loadAndStart_begin s;
              s' = loadAndStart True playing evsL evsR outL outR s
          in take (length (calls s1) + 2) (calls s') = calls s1 @ [Play L, Play R] \<and>
             (if outL = fulfilled \<and> outR = fulfilled
              then isPlaying s' = isPlaying s \<and> loopHandle s' \<noteq> None \<and>
                   scheduled s' = Suc (scheduled s1) \<and>
                   (\<exists>c. schedulingCall c \<and> calls s' = calls s1 @ [Play L, Play R, c])
              else isPlaying s' = False \<and> loopHandle s' = None \<and>
                   vfcCallbacks s' = vfcCallbacks s1 \<and> rafCallbacks s' = rafCallbacks s1 \<and>
                   calls s' = calls s1 @ [Play L, Play R, SetIsPlaying False]))"
proof -
  define s1 where "s1 = loadAndStart_begin s"
  define s2 where "s2 = requestPlay R outR (requestPlay L outL s1)"
  define s' where "s' = loadAndStart True playing evsL evsR outL outR s"
  have h1: "loopHandle s1 = None"
    unfolding s1_def using assms(1,2) by (rule loopHandle_loadAndStart_begin)
  have s2: "calls s2 = calls s1 @ [Play L, Play R]" "loopHandle s2 = None"
    "vfcCallbacks s2 = vfcCallbacks s1" "rafCallbacks s2 = rafCallbacks s1"
    "isPlaying s2 = isPlaying s1"
    using h1 by (simp_all add: s2_def requestPlay_def)
  have ip: "isPlaying s1 = isPlaying s"
    using assms(1,2)
    by (simp add: s1_def loadAndStart_begin_def resetAndLoad_def load_def setCurrentTime_def
        setPlaybackRate_def pause_def cancelSyncLoop_def cancelVideoFrameCallback_def
        cancelAnimationFrame_def split: option.splits)
  have s'_eq: "s' = (if outL = fulfilled \<and> outR = fulfilled then startSyncLoop playing s2
                     else setIsPlaying False s2)"
    using assms
    by (cases outL; cases outR)
       (simp_all add: s'_def loadAndStart_def loadAndStart_resume_def s1_def s2_def Let_def)
  show ?thesis
  proof (cases "outL = fulfilled \<and> outR = fulfilled")
    case True
    then have e: "s' = scheduleStep playing s2"
      using s'_eq s2(2) by (simp add: startSyncLoop_def cancelSyncLoop_no_handle)
    obtain c where c: "schedulingCall c" "calls s' = calls s2 @ [c]"
      unfolding e using calls_scheduleStep by blast
    have "scheduled s' = Suc (scheduled s1)"
      unfolding e by (simp add: scheduled_scheduleStep) (simp add: scheduled_def s2)
    moreover have "loopHandle s' \<noteq> None"
      unfolding e by (rule loopHandle_scheduleStep)
    moreover have "isPlaying s' = isPlaying s"
      unfolding e by (simp add: isPlaying_scheduleStep s2 ip)
    ultimately show ?thesis
      using True c s2(1)
      unfolding Let_def s1_def [symmetric] s'_def [symmetric] by simp
  next
    case False
    then have e: "s' = setIsPlaying False s2"
      using s'_eq by auto
    show ?thesis
      using False s2
      unfolding Let_def s1_def [symmetric] s'_def [symmetric] e
      by (simp add: setIsPlaying_def)
  qed
qed

theorem C6_autoplay_fallback_witness:
  "leftRef mounted = Some 0 \<and> rightRef mounted = Some 1 \<and>
   waitBothReady [(loadeddata, 4)] [(loadedmetadata, 1), (loadeddata, 2)] (loadAndStart_begin mounted) \<and>
   isPlaying (loadAndStart True True [(loadeddata, 4)] [(loadedmetadata, 1), (loadeddata, 2)]
                fulfilled rejected mounted) = False \<and>
   loopHandle (loadAndStart True True [(loadeddata, 4)] [(loadedmetadata, 1), (loadeddata, 2)]
                fulfilled rejected mounted) = None \<and>
   scheduled (loadAndStart True True [(loadeddata, 4)] [(loadedmetadata, 1), (loadeddata, 2)]
                fulfilled rejected mounted) = 0"
proof -
  let ?evL = "[(loadeddata, 4 :: nat)]" and ?evR = "[(loadedmetadata, 1 :: nat), (loadeddata, 2)]"
  have h1: "leftRef mounted = Some 0" and h2: "rightRef mounted = Some 1"
    by (simp_all add: mounted_def attachRefs_def)
  have h3: "waitBothReady ?evL ?evR (loadAndStart_begin mounted)"
    by (simp add: mounted_def eval_defs)
  have q: "vfcCallbacks (loadAndStart_begin mounted) = [] \<and>
           rafCallbacks (loadAndStart_begin mounted) = []"
    by (simp add: mounted_def eval_defs)
  show ?thesis
    using C6_autoplay_fallback [OF h1 h2 h3, of True fulfilled rejected] h1 h2 h3 q
    by (simp add: Let_def scheduled_def)
qed

subsection \<open>Pair switches and load errors\<close>

lemma thumbnailClick_other_pair:
  "index \<noteq> selectedIndex g \<Longrightarrow>
   landedPaused (thumbnailClick index g) \<and> selectedIndex (thumbnailClick index g) = index"
  by (simp add: thumbnailClick_def handleThumbnailClick_def selectionEffect_def remount_def
      landedPaused_def pausedAtZero_def newVideo_def Let_def)

text \<open>
  C10, evaluated where the code breaks it: a click on the thumbnail of the pair that is
  already selected resets the play intent and the loaded flags, but the effect that pauses
  and rewinds the videos does not run: both videos go on playing from 3 s, and with both
  flags cleared the play button stays disabled (\<open>togglePlayPause\<close> does nothing).
\<close>

theorem C10_same_thumbnail_keeps_playing:
  "selectedIndex watching = 0 \<and>
   thumbnailClick 0 watching =
     watching\<lparr>galleryIsPlaying := False, videosLoaded := \<lparr>v1 = False, v2 = False\<rparr>\<rparr> \<and>
   videoRef1 (thumbnailClick 0 watching) = videoRef1 watching \<and>
   videoRef2 (thumbnailClick 0 watching) = videoRef2 watching \<and>
   \<not> pausedAtZero (videoRef1 (thumbnailClick 0 watching)) \<and>
   \<not> landedPaused (thumbnailClick 0 watching) \<and>
   togglePlayPause out1 out2 (thumbnailClick 0 watching) = thumbnailClick 0 watching"
  by (simp add: thumbnailClick_def handleThumbnailClick_def watching_def landedPaused_def
      pausedAtZero_def newVideo_def togglePlayPause_def Let_def)

lemma handleVideoError_opens_gate:
  "playButtonEnabled (handleVideoError Two (handleVideoError One g)) \<and>
   playButtonEnabled (handleVideoError One (handleVideoLoaded Two g))"
  by (simp add: playButtonEnabled_def handleVideoError_def handleVideoLoaded_def)

lemma on_loadeddata_never:
  "loadeddata \<notin> set (map fst evs) \<Longrightarrow> \<not> on_loadeddata evs"
  by (induction evs) auto

lemma readyState_loadAndStart_begin:
  "leftRef s = Some L \<Longrightarrow> rightRef s = Some R \<Longrightarrow>
   readyState (media (loadAndStart_begin s) L) = 0 \<and>
   leftRef (loadAndStart_begin s) = Some L \<and> rightRef (loadAndStart_begin s) = Some R"
  by (simp add: loadAndStart_begin_def resetAndLoad_def load_def setCurrentTime_def
      setPlaybackRate_def pause_def cancelSyncLoop_def cancelVideoFrameCallback_def
      cancelAnimationFrame_def split: option.splits)

text \<open>
  C4, evaluated where the code breaks it: \<open>waitReady\<close> listens to
  \<^verbatim>\<open>loadeddata\<close> only. For an element that is not ready and whose load fails (it
  dispatches \<^verbatim>\<open>error\<close> and never \<^verbatim>\<open>loadeddata\<close>), the promise is unresolved
  after any number of events, and \<open>loadAndStart\<close> never gets past its first
  \<^verbatim>\<open>await\<close>. The other variant does resolve its gate on an error
  (\<open>handleVideoError_opens_gate\<close>).
\<close>

theorem C4_waitReady_stuck_after_error:
  assumes "rs < 2" and "loadeddata \<notin> set (map fst evs)"
  shows "\<not> waitReady rs evs \<and>
         (leftRef s = Some L \<and> rightRef s = Some R \<longrightarrow>
            loadAndStart play playing evs evsR outL outR s = loadAndStart_begin s)"
proof -
  have w: "\<not> waitReady rs' evs" if "rs' < 2" for rs'
    using that assms(2) by (simp add: waitReady_def on_loadeddata_never)
  have "loadAndStart play playing evs evsR outL outR s = loadAndStart_begin s"
    if refs: "leftRef s = Some L" "rightRef s = Some R"
  proof -
    have "\<not> waitBothReady evs evsR (loadAndStart_begin s)"
      using readyState_loadAndStart_begin [OF refs] w [of 0]
      by (simp add: waitBothReady_def)
    then show ?thesis
      using refs by (simp add: loadAndStart_def Let_def)
  qed
  with w [OF assms(1)] show ?thesis by simp
qed

theorem C4_waitReady_stuck_after_error_witness:
  "(0::nat) < 2 \<and> loadeddata \<notin> set (map fst [(loadstart, 0::nat), (error, 0)]) \<and>
   \<not> waitReady 0 [(loadstart, 0), (error, 0)] \<and>
   loadAndStart True True [(loadstart, 0), (error, 0)] [(loadeddata, 4)] fulfilled fulfilled mounted
     = loadAndStart_begin mounted"
proof -
  have h1: "(0::nat) < 2" by simp
  have h2: "loadeddata \<notin> set (map fst [(loadstart, 0::nat), (error, 0)])" by simp
  have refs: "leftRef mounted = Some 0 \<and> rightRef mounted = Some 1"
    by (simp add: mounted_def attachRefs_def)
  show ?thesis
    using C4_waitReady_stuck_after_error [OF h1 h2, of mounted 0 1 True True "[(loadeddata, 4)]"
        fulfilled fulfilled] refs
    by simp
qed

end
